theory Spec2Isabelle
  imports Main "HOL-Library.Word"
begin

section \<open>The OpenAL backend of simpleaudio (simpleaudio-openal.c)\<close>

text \<open>
  The file adapts the open/read/write/close contract of simpleaudio onto an OpenAL
  source with a pool of \<open>NUM_BUFFERS\<close> buffers. Its four functions are embedded below,
  together with the part of the OpenAL device they talk to. The device is outside the
  file: it is modelled as an explicit state (\<open>al_state\<close>), and everything the device
  decides on its own (how fast it plays, which names it hands out, whether it can be
  opened) is a parameter (\<open>al_env\<close>), so that every theorem holds for every device
  behaviour of that shape.
\<close>

subsection \<open>C types\<close>

type_synonym ALuint = "32 word"
type_synonym byte = "8 word"

text \<open>\<open>ALint\<close> results are read by their integer value; \<open>size_t\<close> is 64 bits wide,
  \<open>unsigned int\<close> and \<open>ALsizei\<close> (a signed int) are 32 bits wide.\<close>

datatype ALenum =
    AL_NO_ERROR | AL_INVALID_NAME | AL_INVALID_ENUM | AL_INVALID_VALUE
  | AL_INVALID_OPERATION | AL_OUT_OF_MEMORY | AL_OTHER_CODE int

datatype ALCenum =
    ALC_NO_ERROR | ALC_INVALID_DEVICE | ALC_INVALID_CONTEXT | ALC_INVALID_ENUM
  | ALC_INVALID_VALUE | ALC_OUT_OF_MEMORY | ALC_OTHER_CODE int

datatype al_buffer_format = AL_FORMAT_MONO16 | AL_FORMAT_STEREO16

datatype source_state = AL_INITIAL | AL_PLAYING | AL_PAUSED | AL_STOPPED

text \<open>Modelled from the spec: simpleaudio.h is not part of the sources. The direction is
  "enum {Playback, Record}"; the third constructor stands for any other value of the C
  enum, which the \<open>default:\<close> branches of the file catch. Of the sample formats the file
  names only \<open>SA_SAMPLE_FORMAT_S16\<close> ("currently only one: 16-bit signed PCM"); the
  second constructor is the format that falls into \<open>default:\<close> of \<open>al_format\<close>.\<close>

datatype sa_direction_t = SA_STREAM_PLAYBACK | SA_STREAM_RECORD | SA_STREAM_OTHER

datatype sa_format_t = SA_SAMPLE_FORMAT_S16 | SA_SAMPLE_FORMAT_FLOAT

definition NUM_BUFFERS :: nat where
  "NUM_BUFFERS = 128"

text \<open>\<open>openal_handle\<close> (lines 46-52). Pointers are options: \<open>None\<close> is \<open>NULL\<close>.\<close>

record openal_handle =
  device :: "nat option"
  context_h :: "nat option"
  source :: ALuint
  buffers :: "ALuint list"
  direction :: sa_direction_t

text \<open>Modelled from the spec: \<open>struct simpleaudio\<close> of simpleaudio_internal.h is not part
  of the sources. These are the fields the file reads and writes ("format, rate, channels:
  negotiated once at open", "frameSize: bytes per sample-frame"), the \<open>unsigned int\<close> ones
  as 32-bit words.\<close>

record simpleaudio =
  format :: sa_format_t
  rate :: "32 word"
  channels :: "32 word"
  samplesize :: "32 word"
  backend_handle :: "openal_handle option"
  backend_framesize :: "32 word"

definition simpleaudio_get_format :: "simpleaudio \<Rightarrow> sa_format_t" where
  "simpleaudio_get_format sa = format sa"

definition simpleaudio_get_channels :: "simpleaudio \<Rightarrow> 32 word" where
  "simpleaudio_get_channels sa = channels sa"

definition simpleaudio_get_rate :: "simpleaudio \<Rightarrow> 32 word" where
  "simpleaudio_get_rate sa = rate sa"

subsection \<open>The device\<close>

text \<open>Every call the file makes on the device is recorded, in order, with the value it
  handed back.\<close>

datatype al_call =
    AlcOpenDevice "nat option"
  | AlcCreateContext "nat option"
  | AlcMakeContextCurrent "nat option"
  | AlGenSources
  | AlGenBuffers nat
  | AlGetSourcei_QUEUED int
  | AlGetSourcei_PROCESSED int
  | AlGetSourcei_STATE "source_state option"
  | AlSourceUnqueueBuffers ALuint
  | AlBufferData ALuint al_buffer_format "byte list" int "32 word"
  | AlSourceQueueBuffers ALuint
  | AlSourcePlay
  | AlDeleteSources ALuint
  | AlcDestroyContext "nat option"
  | AlcCloseDevice "nat option"
  | AlcCaptureCloseDevice "nat option"

text \<open>
  The state of the device and of the process around it:
  \<^item> \<open>clock\<close> counts the calls made on the source so far;
  \<^item> \<open>al_errno\<close>, \<open>alc_errno\<close> are the error flags \<open>alGetError\<close> and \<open>alcGetError\<close> read;
  \<^item> \<open>devices\<close>, \<open>contexts\<close>, \<open>sources\<close>, \<open>gen_bufs\<close> are the objects acquired and not
    yet released, \<open>current\<close> the current context, \<open>heap\<close> the number of live \<open>malloc\<close> blocks;
  \<^item> \<open>queue\<close> is the source's buffer queue, oldest first; the first \<open>played\<close> of them have
    been played since playback last started; \<open>src_state\<close> is the playback state;
  \<^item> \<open>stored\<close> is the content of each buffer, \<open>err_out\<close> what was printed on stderr,
    \<open>calls\<close> the device calls so far.
\<close>

record al_state =
  clock :: nat
  al_errno :: ALenum
  alc_errno :: ALCenum
  devices :: "nat set"
  contexts :: "nat set"
  current :: "nat option"
  sources :: "ALuint set"
  gen_bufs :: "ALuint set"
  queue :: "ALuint list"
  played :: nat
  src_state :: source_state
  stored :: "ALuint \<Rightarrow> (al_buffer_format \<times> byte list \<times> 32 word) option"
  heap :: nat
  err_out :: "string list"
  calls :: "al_call list"

text \<open>
  What the device decides: \<open>sched k\<close> is the number of buffers it finishes playing
  between the calls \<open>k - 1\<close> and \<open>k\<close> on the source; \<open>device_ptr\<close> is what \<open>alcOpenDevice\<close>
  returns; \<open>context_ptr\<close> is the context \<open>alcCreateContext\<close> returns, or the error it
  leaves on the device; \<open>source_gen\<close> and \<open>buffers_gen\<close> are the names \<open>alGenSources\<close>
  and \<open>alGenBuffers\<close> hand out (\<open>None\<close>: they fail with \<open>AL_OUT_OF_MEMORY\<close>).
\<close>

record al_env =
  sched :: "nat \<Rightarrow> nat"
  device_ptr :: "nat option"
  context_ptr :: "ALCenum + nat"
  source_gen :: "ALuint option"
  buffers_gen :: "ALuint list option"

datatype abort = AssertionFailed | NullDereference | OutOfBounds

text \<open>A call of the file either returns a value, or the process stops in it (a failed
  \<open>assert\<close>, or a read through \<open>NULL\<close> or outside an array); both carry the state reached.\<close>

datatype 'a result = Abort abort al_state | Return 'a al_state

fun then_do :: "'a result \<Rightarrow> ('a \<Rightarrow> al_state \<Rightarrow> 'b result) \<Rightarrow> 'b result" where
  "then_do (Abort e s) f = Abort e s"
| "then_do (Return x s) f = f x s"

fun result_state :: "'a result \<Rightarrow> al_state" where
  "result_state (Abort e s) = s"
| "result_state (Return x s) = s"

fun returned :: "'a result \<Rightarrow> bool" where
  "returned (Abort e s) = False"
| "returned (Return x s) = True"

text \<open>The error flag keeps the first error since it was last read; reading clears it.\<close>

definition set_error :: "ALenum \<Rightarrow> al_state \<Rightarrow> al_state" where
  "set_error e s = (if al_errno s = AL_NO_ERROR then s\<lparr>al_errno := e\<rparr> else s)"

definition alGetError :: "al_state \<Rightarrow> ALenum \<times> al_state" where
  "alGetError s = (al_errno s, s\<lparr>al_errno := AL_NO_ERROR\<rparr>)"

definition alcGetError :: "nat option \<Rightarrow> al_state \<Rightarrow> ALCenum \<times> al_state" where
  "alcGetError dev s = (alc_errno s, s\<lparr>alc_errno := ALC_NO_ERROR\<rparr>)"

text \<open>\<open>assert( alGetError() == AL_NO_ERROR )\<close>\<close>

definition assert_no_error :: "al_state \<Rightarrow> unit result" where
  "assert_no_error s =
     (case alGetError s of (e, s') \<Rightarrow>
        if e = AL_NO_ERROR then Return () s' else Abort AssertionFailed s')"

text \<open>The device plays on its own: while the source is playing it finishes \<open>n\<close> more
  buffers of the queue, and stops when none is left.\<close>

definition device_advance :: "nat \<Rightarrow> al_state \<Rightarrow> al_state" where
  "device_advance n s =
     (if src_state s = AL_PLAYING then
        (let p = min (played s + n) (length (queue s)) in
         s\<lparr>played := p,
           src_state := (if length (queue s) \<le> p then AL_STOPPED else AL_PLAYING)\<rparr>)
      else s)"

definition tick :: "al_env \<Rightarrow> al_state \<Rightarrow> al_state" where
  "tick env s = device_advance (sched env (clock s)) (s\<lparr>clock := clock s + 1\<rparr>)"

definition logc :: "al_call \<Rightarrow> al_state \<Rightarrow> al_state" where
  "logc c s = s\<lparr>calls := calls s @ [c]\<rparr>"

text \<open>\<open>AL_BUFFERS_PROCESSED\<close>: none before playback starts, all of them once the source has
  stopped, the played ones in between.\<close>

definition buffers_processed :: "al_state \<Rightarrow> nat" where
  "buffers_processed s =
     (case src_state s of
        AL_INITIAL \<Rightarrow> 0
      | AL_STOPPED \<Rightarrow> length (queue s)
      | _ \<Rightarrow> min (played s) (length (queue s)))"

text \<open>\<open>alGetSourcei(source, param, &value)\<close>, one function per parameter the file asks
  for. The last argument before the state is the variable's value before the call: an
  invalid source name raises \<open>AL_INVALID_NAME\<close> and leaves the variable as it was.\<close>

definition alGetSourcei_QUEUED :: "al_env \<Rightarrow> ALuint \<Rightarrow> int \<Rightarrow> al_state \<Rightarrow> int \<times> al_state" where
  "alGetSourcei_QUEUED env src v s =
     (let s1 = tick env s in
      if src \<in> sources s1 then
        (int (length (queue s1)), logc (AlGetSourcei_QUEUED (int (length (queue s1)))) s1)
      else (v, logc (AlGetSourcei_QUEUED v) (set_error AL_INVALID_NAME s1)))"

definition alGetSourcei_PROCESSED :: "al_env \<Rightarrow> ALuint \<Rightarrow> int \<Rightarrow> al_state \<Rightarrow> int \<times> al_state" where
  "alGetSourcei_PROCESSED env src v s =
     (let s1 = tick env s in
      if src \<in> sources s1 then
        (int (buffers_processed s1), logc (AlGetSourcei_PROCESSED (int (buffers_processed s1))) s1)
      else (v, logc (AlGetSourcei_PROCESSED v) (set_error AL_INVALID_NAME s1)))"

definition alGetSourcei_STATE ::
  "al_env \<Rightarrow> ALuint \<Rightarrow> source_state option \<Rightarrow> al_state \<Rightarrow> source_state option \<times> al_state" where
  "alGetSourcei_STATE env src v s =
     (let s1 = tick env s in
      if src \<in> sources s1 then
        (Some (src_state s1), logc (AlGetSourcei_STATE (Some (src_state s1))) s1)
      else (v, logc (AlGetSourcei_STATE v) (set_error AL_INVALID_NAME s1)))"

text \<open>\<open>alSourceUnqueueBuffers(source, 1, &buffer)\<close> takes the oldest buffer off the queue
  when it has been processed; otherwise it raises \<open>AL_INVALID_VALUE\<close> and leaves the
  variable as it was.\<close>

definition alSourceUnqueueBuffers :: "al_env \<Rightarrow> ALuint \<Rightarrow> ALuint \<Rightarrow> al_state \<Rightarrow> ALuint \<times> al_state" where
  "alSourceUnqueueBuffers env src v s =
     (let s1 = tick env s in
      if src \<notin> sources s1 then
        (v, logc (AlSourceUnqueueBuffers v) (set_error AL_INVALID_NAME s1))
      else if buffers_processed s1 < 1 then
        (v, logc (AlSourceUnqueueBuffers v) (set_error AL_INVALID_VALUE s1))
      else
        (hd (queue s1),
         logc (AlSourceUnqueueBuffers (hd (queue s1)))
           (s1\<lparr>queue := tl (queue s1), played := played s1 - 1\<rparr>)))"

text \<open>\<open>alBufferData(buffer, format, data, size, freq)\<close> copies \<open>size\<close> bytes from \<open>data\<close>.
  It refuses a name that is no buffer (\<open>AL_INVALID_NAME\<close>), a negative size
  (\<open>AL_INVALID_VALUE\<close>) and a buffer that is on the queue (\<open>AL_INVALID_OPERATION\<close>).\<close>

definition alBufferData ::
  "al_env \<Rightarrow> ALuint \<Rightarrow> al_buffer_format \<Rightarrow> byte list \<Rightarrow> int \<Rightarrow> 32 word \<Rightarrow> al_state \<Rightarrow> al_state" where
  "alBufferData env b fmt data sz freq s =
     (let s1 = logc (AlBufferData b fmt (take (nat sz) data) sz freq) (tick env s) in
      if b \<notin> gen_bufs s1 then set_error AL_INVALID_NAME s1
      else if sz < 0 then set_error AL_INVALID_VALUE s1
      else if b \<in> set (queue s1) then set_error AL_INVALID_OPERATION s1
      else s1\<lparr>stored := (stored s1)(b := Some (fmt, take (nat sz) data, freq))\<rparr>)"

text \<open>\<open>alSourceQueueBuffers(source, 1, &buffer)\<close> appends the buffer to the queue.\<close>

definition alSourceQueueBuffers :: "al_env \<Rightarrow> ALuint \<Rightarrow> ALuint \<Rightarrow> al_state \<Rightarrow> al_state" where
  "alSourceQueueBuffers env src b s =
     (let s1 = logc (AlSourceQueueBuffers b) (tick env s) in
      if src \<notin> sources s1 \<or> b \<notin> gen_bufs s1 then set_error AL_INVALID_NAME s1
      else s1\<lparr>queue := queue s1 @ [b]\<rparr>)"

text \<open>\<open>alSourcePlay(source)\<close> starts playback at the head of the queue; a paused source
  resumes where it was.\<close>

definition alSourcePlay :: "al_env \<Rightarrow> ALuint \<Rightarrow> al_state \<Rightarrow> al_state" where
  "alSourcePlay env src s =
     (let s1 = logc AlSourcePlay (tick env s) in
      if src \<notin> sources s1 then set_error AL_INVALID_NAME s1
      else
        s1\<lparr>played := (if src_state s1 = AL_PAUSED then played s1 else 0),
            src_state := AL_PLAYING\<rparr>)"


definition alcOpenDevice :: "al_env \<Rightarrow> string option \<Rightarrow> al_state \<Rightarrow> nat option \<times> al_state" where
  "alcOpenDevice env name s =
     (case device_ptr env of
        None \<Rightarrow> (None, logc (AlcOpenDevice None) s)
      | Some d \<Rightarrow> (Some d, logc (AlcOpenDevice (Some d)) (s\<lparr>devices := insert d (devices s)\<rparr>)))"

definition alcCreateContext :: "al_env \<Rightarrow> nat option \<Rightarrow> al_state \<Rightarrow> nat option \<times> al_state" where
  "alcCreateContext env dev s =
     (case context_ptr env of
        Inl e \<Rightarrow> (None, logc (AlcCreateContext None) (s\<lparr>alc_errno := e\<rparr>))
      | Inr c \<Rightarrow> (Some c, logc (AlcCreateContext (Some c)) (s\<lparr>contexts := insert c (contexts s)\<rparr>)))"

definition alcMakeContextCurrent :: "nat option \<Rightarrow> al_state \<Rightarrow> al_state" where
  "alcMakeContextCurrent ctx s = logc (AlcMakeContextCurrent ctx) (s\<lparr>current := ctx\<rparr>)"




text \<open>\<open>alGenSources(1, &source)\<close> makes a source with an empty queue, not yet playing;
  \<open>alGenBuffers(n, buffers)\<close> makes \<open>n\<close> buffers. On an error the variable is left as it
  was.\<close>

definition alGenSources :: "al_env \<Rightarrow> ALuint \<Rightarrow> al_state \<Rightarrow> ALuint \<times> al_state" where
  "alGenSources env v s =
     (case source_gen env of
        None \<Rightarrow> (v, logc AlGenSources (set_error AL_OUT_OF_MEMORY s))
      | Some name \<Rightarrow>
          (name, logc AlGenSources
             (s\<lparr>sources := insert name (sources s), queue := [], played := 0,
                 src_state := AL_INITIAL\<rparr>)))"

definition alGenBuffers :: "al_env \<Rightarrow> nat \<Rightarrow> ALuint list \<Rightarrow> al_state \<Rightarrow> ALuint list \<times> al_state" where
  "alGenBuffers env n v s =
     (case buffers_gen env of
        None \<Rightarrow> (v, logc (AlGenBuffers n) (set_error AL_OUT_OF_MEMORY s))
      | Some names \<Rightarrow>
          (take n names, logc (AlGenBuffers n) (s\<lparr>gen_bufs := gen_bufs s \<union> set (take n names)\<rparr>)))"

definition malloc :: "al_state \<Rightarrow> al_state" where
  "malloc s = s\<lparr>heap := heap s + 1\<rparr>"

definition free :: "al_state \<Rightarrow> al_state" where
  "free s = s\<lparr>heap := heap s - 1\<rparr>"

definition fprintf_stderr :: "string \<Rightarrow> al_state \<Rightarrow> al_state" where
  "fprintf_stderr msg s = s\<lparr>err_out := err_out s @ [msg]\<rparr>"

subsection \<open>The functions of the file\<close>

text \<open>\<open>al_error_str\<close> (lines 55-74) and \<open>alc_error_str\<close> (lines 77-96): \<open>None\<close> is the
  \<open>assert(0)\<close> of the \<open>default:\<close> branch.\<close>

fun al_error_str :: "ALenum \<Rightarrow> string option" where
  "al_error_str AL_NO_ERROR = Some ''AL_NO_ERROR''"
| "al_error_str AL_INVALID_NAME = Some ''AL_INVALID_NAME''"
| "al_error_str AL_INVALID_ENUM = Some ''AL_INVALID_ENUM''"
| "al_error_str AL_INVALID_VALUE = Some ''AL_INVALID_VALUE''"
| "al_error_str AL_INVALID_OPERATION = Some ''AL_INVALID_OPERATION''"
| "al_error_str AL_OUT_OF_MEMORY = Some ''AL_OUT_OF_MEMORY''"
| "al_error_str (AL_OTHER_CODE c) = None"

fun alc_error_str :: "ALCenum \<Rightarrow> string option" where
  "alc_error_str ALC_NO_ERROR = Some ''ALC_NO_ERROR''"
| "alc_error_str ALC_INVALID_DEVICE = Some ''ALC_INVALID_DEVICE''"
| "alc_error_str ALC_INVALID_CONTEXT = Some ''ALC_INVALID_CONTEXT''"
| "alc_error_str ALC_INVALID_ENUM = Some ''ALC_INVALID_ENUM''"
| "alc_error_str ALC_INVALID_VALUE = Some ''ALC_INVALID_VALUE''"
| "alc_error_str ALC_OUT_OF_MEMORY = Some ''ALC_OUT_OF_MEMORY''"
| "alc_error_str (ALC_OTHER_CODE c) = None"

text \<open>\<open>al_format\<close> (lines 99-110): \<open>None\<close> is a failed assertion.\<close>

definition al_format :: "sa_format_t \<Rightarrow> int \<Rightarrow> al_buffer_format option" where
  "al_format fmt chans =
     (if \<not> (chans = 1 \<or> chans = 2) then None
      else
        (case fmt of
           SA_SAMPLE_FORMAT_S16 \<Rightarrow> Some (if chans = 1 then AL_FORMAT_MONO16 else AL_FORMAT_STEREO16)
         | _ \<Rightarrow> None))"

text \<open>\<open>sa_openal_read\<close> (lines 113-117): \<open>assert(0)\<close>.\<close>

definition sa_openal_read :: "simpleaudio \<Rightarrow> byte list \<Rightarrow> 64 word \<Rightarrow> al_state \<Rightarrow> int result" where
  "sa_openal_read sa buf nframes s = Abort AssertionFailed s"

text \<open>The loop of lines 137-141. It polls for as long as \<open>nreadybufs \<le> 0\<close> and has no
  other way out than a failed assertion, so it is a partial function: \<open>None\<close> means that it
  never returns.\<close>

partial_function (option) wait_nreadybufs ::
  "al_env \<Rightarrow> ALuint \<Rightarrow> int \<Rightarrow> al_state \<Rightarrow> int result option" where
  "wait_nreadybufs env src nreadybufs s =
     (if nreadybufs \<le> 0 then
        (case alGetSourcei_PROCESSED env src nreadybufs s of (nreadybufs', s1) \<Rightarrow>
           (case assert_no_error s1 of
              Abort e s2 \<Rightarrow> Some (Abort e s2)
            | Return u s2 \<Rightarrow> wait_nreadybufs env src nreadybufs' s2))
      else Some (Return nreadybufs s))"

text \<open>Lines 124-145 of \<open>sa_openal_write\<close>: the choice of the buffer. The array
  \<open>hdl->buffers\<close> has \<open>NUM_BUFFERS\<close> entries; a read outside it stops the model.\<close>

definition select_buffer :: "al_env \<Rightarrow> openal_handle \<Rightarrow> al_state \<Rightarrow> ALuint result option" where
  "select_buffer env hdl s =
     (let buffer = (- 1 :: ALuint) in
      case alGetSourcei_QUEUED env (source hdl) 0 s of (nqueuedbufs, s1) \<Rightarrow>
      (case assert_no_error s1 of
         Abort e s2 \<Rightarrow> Some (Abort e s2)
       | Return u s2 \<Rightarrow>
           if nqueuedbufs < int NUM_BUFFERS \<and>
              \<not> (0 \<le> nqueuedbufs \<and> nat nqueuedbufs < length (buffers hdl))
           then Some (Abort OutOfBounds s2)
           else
             (let buffer = (if nqueuedbufs < int NUM_BUFFERS
                            then buffers hdl ! nat nqueuedbufs else buffer) in
              if buffer = - 1 then
                (case wait_nreadybufs env (source hdl) 0 s2 of
                   None \<Rightarrow> None
                 | Some (Abort e s3) \<Rightarrow> Some (Abort e s3)
                 | Some (Return nreadybufs s3) \<Rightarrow>
                     (case alSourceUnqueueBuffers env (source hdl) buffer s3 of (buffer', s4) \<Rightarrow>
                        Some (then_do (assert_no_error s4) (\<lambda>u s5. Return buffer' s5))))
              else Some (Return buffer s2))))"

text \<open>The fourth argument of \<open>alBufferData\<close> in line 152: the product
  \<open>nframes * sa->backend_framesize\<close> is computed in \<open>size_t\<close> (64 bits, wrapping) and
  converted to the parameter's type \<open>ALsizei\<close> (a 32-bit signed int).\<close>

definition data_size :: "simpleaudio \<Rightarrow> 64 word \<Rightarrow> int" where
  "data_size sa nframes = sint (ucast (nframes * ucast (backend_framesize sa)) :: 32 word)"

text \<open>Lines 147-170 of \<open>sa_openal_write\<close>: fill the buffer, queue it, make sure the source
  plays, return \<open>nframes\<close> (a \<open>size_t\<close>) as an \<open>ssize_t\<close>.\<close>

definition fill_queue_play ::
  "al_env \<Rightarrow> simpleaudio \<Rightarrow> openal_handle \<Rightarrow> byte list \<Rightarrow> 64 word \<Rightarrow> ALuint \<Rightarrow> al_state \<Rightarrow> int result" where
  "fill_queue_play env sa hdl buf nframes buffer s =
     (case al_format (simpleaudio_get_format sa) (sint (simpleaudio_get_channels sa)) of
        None \<Rightarrow> Abort AssertionFailed s
      | Some fmt \<Rightarrow>
          (let s1 = alBufferData env buffer fmt buf (data_size sa nframes)
                      (simpleaudio_get_rate sa) s in
           then_do (assert_no_error s1) (\<lambda>u s2.
           (let s3 = alSourceQueueBuffers env (source hdl) buffer s2 in
            then_do (assert_no_error s3) (\<lambda>u s4.
            (case alGetSourcei_STATE env (source hdl) None s4 of (state, s5) \<Rightarrow>
             then_do (assert_no_error s5) (\<lambda>u s6.
             (let s7 = (if state \<noteq> Some AL_PLAYING then alSourcePlay env (source hdl) s6 else s6)
              in Return (sint nframes) s7))))))))"

text \<open>\<open>sa_openal_write\<close> (lines 120-171).\<close>

definition sa_openal_write ::
  "al_env \<Rightarrow> simpleaudio \<Rightarrow> byte list \<Rightarrow> 64 word \<Rightarrow> al_state \<Rightarrow> int result option" where
  "sa_openal_write env sa buf nframes s =
     (case backend_handle sa of
        None \<Rightarrow> Some (Abort NullDereference s)
      | Some hdl \<Rightarrow>
          (case select_buffer env hdl s of
             None \<Rightarrow> None
           | Some (Abort e s1) \<Rightarrow> Some (Abort e s1)
           | Some (Return buffer s1) \<Rightarrow> Some (fill_queue_play env sa hdl buf nframes buffer s1)))"



text \<open>The \<open>fail:\<close> label of \<open>sa_openal_open_stream\<close> (lines 264-266).\<close>

definition open_fail :: "simpleaudio \<Rightarrow> al_state \<Rightarrow> (int \<times> simpleaudio) result" where
  "open_fail sa s = Return (0, sa) (free s)"

text \<open>\<open>sa_openal_open_stream\<close> (lines 212-267). The result is the return value and the
  session as the function leaves it. The fields of the \<open>malloc\<close>ed handle are the local
  values \<open>dev\<close>, \<open>ctx\<close>, \<open>src\<close>, \<open>bufs\<close>.\<close>

definition sa_openal_open_stream ::
  "al_env \<Rightarrow> simpleaudio \<Rightarrow> string option \<Rightarrow> sa_direction_t \<Rightarrow> sa_format_t \<Rightarrow> 32 word \<Rightarrow> 32 word \<Rightarrow>
   string \<Rightarrow> string \<Rightarrow> al_state \<Rightarrow> (int \<times> simpleaudio) result" where
  "sa_openal_open_stream env sa backend_device sa_stream_direction sa_format rate' channels'
       app_name stream_name s =
     (let s0 = malloc s in
      case sa_stream_direction of
        SA_STREAM_RECORD \<Rightarrow> Abort AssertionFailed s0
      | SA_STREAM_OTHER \<Rightarrow> Abort AssertionFailed s0
      | SA_STREAM_PLAYBACK \<Rightarrow>
          \<comment> \<open>the code after the \<open>switch\<close> is reached from this case only\<close>
          (case alcOpenDevice env backend_device s0 of (dev, s1) \<Rightarrow>
           if dev = None then
             (case alGetError s1 of (err, s2) \<Rightarrow>
                (case al_error_str err of
                   None \<Rightarrow> Abort AssertionFailed s2
                 | Some str \<Rightarrow>
                     open_fail sa
                       (fprintf_stderr
                          (''E: Cannot open OpenAL device: '' @ str @ [CHR 0x0A, CHR '' '']) s2)))
           else
             (case alcCreateContext env dev s1 of (ctx, s2) \<Rightarrow>
              (let s3 = alcMakeContextCurrent ctx s2 in
               if ctx = None then
                 (case alcGetError dev s3 of (err, s4) \<Rightarrow>
                    (case alc_error_str err of
                       None \<Rightarrow> Abort AssertionFailed s4
                     | Some str \<Rightarrow>
                         open_fail sa
                           (fprintf_stderr
                              (''E: Cannot create OpenAL context: '' @ str @ [CHR 0x0A, CHR '' ''])
                              s4)))
               else
                 (case alGenSources env 0 s3 of (src, s4) \<Rightarrow>
                  then_do (assert_no_error s4) (\<lambda>u s5.
                  (case alGenBuffers env NUM_BUFFERS [] s5 of (bufs, s6) \<Rightarrow>
                   then_do (assert_no_error s6) (\<lambda>u s7.
                   Return
                     (1, sa\<lparr>backend_handle :=
                               Some \<lparr>device = dev, context_h = ctx, source = src, buffers = bufs,
                                     direction = sa_stream_direction\<rparr>,
                             backend_framesize := channels sa * samplesize sa\<rparr>)
                     s7))))))))"

section \<open>Notions used in the statements\<close>

subsection \<open>States and traces\<close>

text \<open>The state after a successful query of \<open>AL_BUFFERS_QUEUED\<close>, and after a successful
  poll of \<open>AL_BUFFERS_PROCESSED\<close>.\<close>

definition queried :: "al_env \<Rightarrow> al_state \<Rightarrow> al_state" where
  "queried env s = logc (AlGetSourcei_QUEUED (int (length (queue s)))) (tick env s)"

definition poll_state :: "al_env \<Rightarrow> al_state \<Rightarrow> al_state" where
  "poll_state env s =
     logc (AlGetSourcei_PROCESSED (int (buffers_processed (tick env s)))) (tick env s)"

text \<open>\<open>poll_nth env src k s\<close> is what the poll number \<open>k\<close> (counted from 0) of the loop of
  lines 138-141 reads when the loop is entered in state \<open>s\<close>, and \<open>state_nth\<close> the same for
  the loop of lines 184-187. "The device eventually reports a processed buffer" is
  \<open>\<exists>k. 1 \<le> fst (poll_nth env src k s)\<close>.\<close>

fun poll_nth :: "al_env \<Rightarrow> ALuint \<Rightarrow> nat \<Rightarrow> al_state \<Rightarrow> int \<times> al_state" where
  "poll_nth env src 0 s = alGetSourcei_PROCESSED env src 0 s"
| "poll_nth env src (Suc k) s =
     (case alGetSourcei_PROCESSED env src 0 s of
        (n, s1) \<Rightarrow> poll_nth env src k (snd (alGetError s1)))"


text \<open>The device calls made between two states.\<close>

definition new_calls :: "al_state \<Rightarrow> al_state \<Rightarrow> al_call list" where
  "new_calls s s' = drop (length (calls s)) (calls s')"

fun is_poll :: "al_call \<Rightarrow> bool" where
  "is_poll (AlGetSourcei_PROCESSED n) = True"
| "is_poll c = False"

text \<open>A call has entered the pool-exhausted path when it has polled
  \<open>AL_BUFFERS_PROCESSED\<close>, or when it never returns (the polling loop is the only loop of
  \<open>sa_openal_write\<close>).\<close>

definition entered_wait :: "al_state \<Rightarrow> 'a result option \<Rightarrow> bool" where
  "entered_wait s r =
     (case r of None \<Rightarrow> True | Some x \<Rightarrow> list_ex is_poll (new_calls s (result_state x)))"

text \<open>The payloads handed to \<open>alBufferData\<close> in a trace, and the buffers they went to.\<close>

fun uploads :: "al_call list \<Rightarrow> (ALuint \<times> byte list) list" where
  "uploads [] = []"
| "uploads (AlBufferData b f d z r # cs) = (b, d) # uploads cs"
| "uploads (c # cs) = uploads cs"

text \<open>What the session of a handle needs for the device calls of a write to go
  through: the source exists and no error is pending.\<close>

definition session_ok :: "openal_handle \<Rightarrow> al_state \<Rightarrow> bool" where
  "session_ok hdl s = (source hdl \<in> sources s \<and> al_errno s = AL_NO_ERROR \<and>
     length (buffers hdl) = NUM_BUFFERS)"


text \<open>A caller that issues one write after the other, each on the state the one before
  left, and collects the return values; it stops when a write stops.\<close>

fun sa_openal_writes ::
  "al_env \<Rightarrow> simpleaudio \<Rightarrow> (byte list \<times> 64 word) list \<Rightarrow> al_state \<Rightarrow> int list result option" where
  "sa_openal_writes env sa [] s = Some (Return [] s)"
| "sa_openal_writes env sa ((buf, nframes) # chunks) s =
     (case sa_openal_write env sa buf nframes s of
        None \<Rightarrow> None
      | Some (Abort e s1) \<Rightarrow> Some (Abort e s1)
      | Some (Return n s1) \<Rightarrow>
          (case sa_openal_writes env sa chunks s1 of
             None \<Rightarrow> None
           | Some (Abort e s2) \<Rightarrow> Some (Abort e s2)
           | Some (Return ns s2) \<Rightarrow> Some (Return (n # ns) s2)))"

subsection \<open>A concrete device and session\<close>

text \<open>A device that hands out the buffer names 1 to 128, the source name 1, and plays
  according to the schedule \<open>f\<close>; a fresh process; a mono 16-bit session, before and after
  \<open>sa_openal_open_stream\<close>; and the device with all 128 buffers queued and playing.\<close>

definition pool128 :: "ALuint list" where
  "pool128 = map of_nat [1..<129]"

definition still :: "nat \<Rightarrow> nat" where
  "still k = 0"

definition steady :: "nat \<Rightarrow> nat" where
  "steady k = 1"

definition env0 :: "(nat \<Rightarrow> nat) \<Rightarrow> al_env" where
  "env0 f = \<lparr>sched = f, device_ptr = Some 7, context_ptr = Inr 9, source_gen = Some 1,
            buffers_gen = Some pool128\<rparr>"

definition boot :: al_state where
  "boot = \<lparr>clock = 0, al_errno = AL_NO_ERROR, alc_errno = ALC_NO_ERROR, devices = {},
          contexts = {}, current = None, sources = {}, gen_bufs = {}, queue = [], played = 0,
          src_state = AL_INITIAL, stored = (\<lambda>b. None), heap = 0, err_out = [], calls = []\<rparr>"

definition sa0 :: simpleaudio where
  "sa0 = \<lparr>format = SA_SAMPLE_FORMAT_S16, rate = 44100, channels = 1, samplesize = 2,
         backend_handle = None, backend_framesize = 0\<rparr>"

definition hdl0 :: openal_handle where
  "hdl0 = \<lparr>device = Some 7, context_h = Some 9, source = 1, buffers = pool128,
          direction = SA_STREAM_PLAYBACK\<rparr>"

definition sa1 :: simpleaudio where
  "sa1 = sa0\<lparr>backend_handle := Some hdl0, backend_framesize := 2\<rparr>"

definition opened :: al_state where
  "opened = boot\<lparr>devices := {7}, contexts := {9}, current := Some 9, sources := {1},
      gen_bufs := set pool128, heap := 1,
      calls := [AlcOpenDevice (Some 7), AlcCreateContext (Some 9),
                AlcMakeContextCurrent (Some 9), AlGenSources, AlGenBuffers 128]\<rparr>"

definition full :: al_state where
  "full = opened\<lparr>queue := pool128, src_state := AL_PLAYING\<rparr>"



text \<open>The pool is in order when the queue holds the first buffers of the pool, in the
  pool's order, the pool's buffers exist, are pairwise different, and none of them is
  the sentinel \<open>(ALuint)-1\<close>.\<close>

definition pool_in_order :: "openal_handle \<Rightarrow> al_state \<Rightarrow> bool" where
  "pool_in_order hdl s =
     (distinct (buffers hdl) \<and> - 1 \<notin> set (buffers hdl) \<and> set (buffers hdl) \<subseteq> gen_bufs s \<and>
      queue s = take (length (queue s)) (buffers hdl))"

text \<open>The same device and session when the first buffer name that \<open>alGenBuffers\<close> hands
  out is \<open>2^32 - 1\<close>, the value of \<open>(ALuint)-1\<close>.\<close>

definition pool_s :: "ALuint list" where
  "pool_s = pool128[0 := - 1]"

definition env_s :: "(nat \<Rightarrow> nat) \<Rightarrow> al_env" where
  "env_s f = (env0 f)\<lparr>buffers_gen := Some pool_s\<rparr>"

definition hdl_s :: openal_handle where
  "hdl_s = hdl0\<lparr>buffers := pool_s\<rparr>"

definition sa_s :: simpleaudio where
  "sa_s = sa1\<lparr>backend_handle := Some hdl_s\<rparr>"

definition opened_s :: al_state where
  "opened_s = opened\<lparr>gen_bufs := set pool_s\<rparr>"

text \<open>A session whose second buffer name is \<open>2^32 - 1\<close>, and the device after the first
  buffer has been queued, played to its end, and the source has stopped.\<close>

definition hdl_t :: openal_handle where
  "hdl_t = hdl0\<lparr>buffers := pool128[1 := - 1]\<rparr>"

definition sa_t :: simpleaudio where
  "sa_t = sa1\<lparr>backend_handle := Some hdl_t\<rparr>"

definition one_played :: al_state where
  "one_played = opened\<lparr>queue := [1], src_state := AL_STOPPED\<rparr>"




subsection \<open>Closing\<close>

text \<open>The state after a successful query of \<open>AL_SOURCE_STATE\<close>. The source is drained when
  the device reports every buffer of its queue as processed.\<close>

definition state_poll :: "al_env \<Rightarrow> al_state \<Rightarrow> al_state" where
  "state_poll env s = logc (AlGetSourcei_STATE (Some (src_state (tick env s)))) (tick env s)"

definition drained :: "al_state \<Rightarrow> bool" where
  "drained s = (buffers_processed s = length (queue s))"



subsection \<open>The discipline of the pool\<close>

text \<open>A monitor over the device calls. It follows the queue of the source
  (\<open>alSourceQueueBuffers\<close> appends a buffer, \<open>alSourceUnqueueBuffers\<close> takes the oldest one
  off) and remembers whether the device has reported a processed buffer that has not
  been unqueued since. It accepts
  \<^item> a buffer being filled only when it is not on the queue and fewer than \<open>NUM_BUFFERS\<close>
    buffers are on the queue;
  \<^item> a buffer being queued only when fewer than \<open>NUM_BUFFERS\<close> buffers are on the queue;
  \<^item> a buffer being unqueued only when it is the oldest of the queue and the last poll
    before it reported a processed buffer.

  \<open>track cs (q, ready)\<close> is \<open>None\<close> when a call of \<open>cs\<close> is not accepted, and otherwise the
  queue and the flag after \<open>cs\<close>.\<close>

fun track_step :: "al_call \<Rightarrow> ALuint list \<times> bool \<Rightarrow> (ALuint list \<times> bool) option" where
  "track_step (AlGetSourcei_PROCESSED n) (q, ready) = Some (q, 1 \<le> n)"
| "track_step (AlSourceUnqueueBuffers b) (q, ready) =
     (if ready \<and> q \<noteq> [] \<and> b = hd q then Some (tl q, False) else None)"
| "track_step (AlBufferData b f d z r) (q, ready) =
     (if b \<notin> set q \<and> length q < NUM_BUFFERS then Some (q, ready) else None)"
| "track_step (AlSourceQueueBuffers b) (q, ready) =
     (if length q < NUM_BUFFERS then Some (q @ [b], ready) else None)"
| "track_step c (q, ready) = Some (q, ready)"

fun track :: "al_call list \<Rightarrow> ALuint list \<times> bool \<Rightarrow> (ALuint list \<times> bool) option" where
  "track [] st = Some st"
| "track (c # cs) st = (case track_step c st of None \<Rightarrow> None | Some st' \<Rightarrow> track cs st')"

text \<open>The buffers in flight: on the queue and not reported as processed.\<close>

definition in_flight :: "al_state \<Rightarrow> nat" where
  "in_flight s = length (queue s) - buffers_processed s"

text \<open>What the writes of a session keep true of its pool and queue: the pool's names are
  pairwise different, no buffer is twice on the queue, the queue is not longer than
  the pool, and it holds the buffers of the pool's first entries.\<close>

definition pool_inv :: "openal_handle \<Rightarrow> al_state \<Rightarrow> bool" where
  "pool_inv hdl s =
     (session_ok hdl s \<and> distinct (buffers hdl) \<and> distinct (queue s) \<and>
      length (queue s) \<le> NUM_BUFFERS \<and>
      set (queue s) = set (take (length (queue s)) (buffers hdl)))"



section \<open>Lemmas about the device calls\<close>

lemma tick_fields [simp]:
  "sources (tick env s) = sources s"
  "gen_bufs (tick env s) = gen_bufs s"
  "queue (tick env s) = queue s"
  "calls (tick env s) = calls s"
  "al_errno (tick env s) = al_errno s"
  "alc_errno (tick env s) = alc_errno s"
  "devices (tick env s) = devices s"
  "contexts (tick env s) = contexts s"
  "current (tick env s) = current s"
  "heap (tick env s) = heap s"
  "stored (tick env s) = stored s"
  "err_out (tick env s) = err_out s"
  "clock (tick env s) = Suc (clock s)"
  by (simp_all add: tick_def device_advance_def Let_def)

lemma logc_fields [simp]:
  "sources (logc c s) = sources s"
  "gen_bufs (logc c s) = gen_bufs s"
  "queue (logc c s) = queue s"
  "played (logc c s) = played s"
  "src_state (logc c s) = src_state s"
  "al_errno (logc c s) = al_errno s"
  "alc_errno (logc c s) = alc_errno s"
  "devices (logc c s) = devices s"
  "contexts (logc c s) = contexts s"
  "current (logc c s) = current s"
  "heap (logc c s) = heap s"
  "calls (logc c s) = calls s @ [c]"
  "stored (logc c s) = stored s"
  "err_out (logc c s) = err_out s"
  "clock (logc c s) = clock s"
  by (simp_all add: logc_def)

lemma clean_upd: "al_errno s = AL_NO_ERROR \<Longrightarrow> s\<lparr>al_errno := AL_NO_ERROR\<rparr> = s"
  by (cases s) simp

lemma assert_clean [simp]: "al_errno s = AL_NO_ERROR \<Longrightarrow> assert_no_error s = Return () s"
  by (simp add: assert_no_error_def alGetError_def clean_upd)

lemma processed_tick_mono: "buffers_processed s \<le> buffers_processed (tick env s)"
  by (auto simp: buffers_processed_def tick_def device_advance_def Let_def
      split: source_state.splits)

lemma processed_le_queue: "buffers_processed s \<le> length (queue s)"
  by (simp add: buffers_processed_def split: source_state.splits)

lemma poll_valid:
  "src \<in> sources s \<Longrightarrow>
   alGetSourcei_PROCESSED env src v s = (int (buffers_processed (tick env s)), poll_state env s)"
  by (simp add: alGetSourcei_PROCESSED_def poll_state_def Let_def)

lemma poll_state_fields [simp]:
  "sources (poll_state env s) = sources s"
  "gen_bufs (poll_state env s) = gen_bufs s"
  "queue (poll_state env s) = queue s"
  "al_errno (poll_state env s) = al_errno s"
  "buffers_processed (poll_state env s) = buffers_processed (tick env s)"
  "calls (poll_state env s) = calls s @ [AlGetSourcei_PROCESSED (int (buffers_processed (tick env s)))]"
  by (simp_all add: poll_state_def logc_def buffers_processed_def split: source_state.splits)

lemma queued_valid:
  "src \<in> sources s \<Longrightarrow> alGetSourcei_QUEUED env src v s = (int (length (queue s)), queried env s)"
  by (simp add: alGetSourcei_QUEUED_def queried_def Let_def)

lemma queried_fields [simp]:
  "sources (queried env s) = sources s"
  "gen_bufs (queried env s) = gen_bufs s"
  "queue (queried env s) = queue s"
  "al_errno (queried env s) = al_errno s"
  "calls (queried env s) = calls s @ [AlGetSourcei_QUEUED (int (length (queue s)))]"
  by (simp_all add: queried_def)

lemma unqueue_ok:
  assumes "src \<in> sources s" and "1 \<le> buffers_processed s"
  shows "alSourceUnqueueBuffers env src v s =
     (hd (queue s),
      logc (AlSourceUnqueueBuffers (hd (queue s)))
        ((tick env s)\<lparr>queue := tl (queue s), played := played (tick env s) - 1\<rparr>))"
proof -
  have "1 \<le> buffers_processed (tick env s)"
    using assms(2) processed_tick_mono[of s env] by linarith
  then show ?thesis using assms(1) by (simp add: alSourceUnqueueBuffers_def Let_def)
qed

section \<open>The polling loop of \<open>sa_openal_write\<close>\<close>

text \<open>Whenever the loop returns, it returns after a poll that reported at least one
  processed buffer, every earlier poll having reported none; it has changed nothing but
  the device's own progress.\<close>

lemma wait_sound:
  assumes "wait_nreadybufs env src n s = Some r"
  shows "(0 < n \<longrightarrow> r = Return n s) \<and>
   (n \<le> 0 \<longrightarrow> src \<in> sources s \<longrightarrow> al_errno s = AL_NO_ERROR \<longrightarrow>
      (\<exists>k m s'. r = Return m s' \<and> 1 \<le> m \<and> m = int (buffers_processed s') \<and>
         m = fst (poll_nth env src k s) \<and>
         queue s' = queue s \<and> sources s' = sources s \<and> gen_bufs s' = gen_bufs s \<and>
         al_errno s' = AL_NO_ERROR \<and>
         calls s' = calls s @ replicate k (AlGetSourcei_PROCESSED 0) @ [AlGetSourcei_PROCESSED m]))"
  using assms
proof (induct env src n s r rule: wait_nreadybufs.raw_induct[rotated 1, consumes 1, case_names step])
  case (step wait env src n s r)
  show ?case
  proof (intro conjI impI)
    assume "0 < n"
    with step(2) show "r = Return n s" by simp
  next
    assume n: "n \<le> 0" and src: "src \<in> sources s" and cl: "al_errno s = AL_NO_ERROR"
    let ?m = "int (buffers_processed (tick env s))"
    let ?s1 = "poll_state env s"
    from step(2) n src cl have rec: "wait env src ?m ?s1 = Some r"
      by (simp add: poll_valid)
    show "\<exists>k m s'. r = Return m s' \<and> 1 \<le> m \<and> m = int (buffers_processed s') \<and>
         m = fst (poll_nth env src k s) \<and>
         queue s' = queue s \<and> sources s' = sources s \<and> gen_bufs s' = gen_bufs s \<and>
         al_errno s' = AL_NO_ERROR \<and>
         calls s' = calls s @ replicate k (AlGetSourcei_PROCESSED 0) @ [AlGetSourcei_PROCESSED m]"
    proof (cases "0 < ?m")
      case True
      with step(1)[OF rec] have "r = Return ?m ?s1" by simp
      with True src cl show ?thesis
        by (intro exI[of _ 0] exI[of _ ?m] exI[of _ ?s1]) (simp add: poll_valid)
    next
      case False
      then have m0: "?m = 0" by simp
      from step(1)[OF rec] False src cl obtain k m s' where
        r: "r = Return m s'" "1 \<le> m" "m = int (buffers_processed s')"
           "m = fst (poll_nth env src k ?s1)"
           "queue s' = queue ?s1" "sources s' = sources ?s1" "gen_bufs s' = gen_bufs ?s1"
           "al_errno s' = AL_NO_ERROR"
           "calls s' = calls ?s1 @ replicate k (AlGetSourcei_PROCESSED 0) @ [AlGetSourcei_PROCESSED m]"
        by auto
      have "m = fst (poll_nth env src (Suc k) s)"
        using r(4) src cl by (simp add: poll_valid alGetError_def clean_upd)
      moreover have "calls s' =
          calls s @ replicate (Suc k) (AlGetSourcei_PROCESSED 0) @ [AlGetSourcei_PROCESSED m]"
        using r(9) m0 by (simp add: replicate_app_Cons_same)
      ultimately show ?thesis
        using r by (intro exI[of _ "Suc k"] exI[of _ m] exI[of _ s']) simp
    qed
  qed
qed

text \<open>Conversely, the loop returns as soon as some poll reports a processed buffer.\<close>

lemma wait_complete:
  "src \<in> sources s \<Longrightarrow> al_errno s = AL_NO_ERROR \<Longrightarrow> 1 \<le> fst (poll_nth env src k s) \<Longrightarrow>
   \<exists>r. wait_nreadybufs env src 0 s = Some r"
proof (induction k arbitrary: s)
  case 0
  then show ?case
    by (subst wait_nreadybufs.simps) (simp add: poll_valid wait_nreadybufs.simps)
next
  case (Suc k)
  let ?m = "int (buffers_processed (tick env s))"
  show ?case
  proof (cases "0 < ?m")
    case True
    with Suc.prems show ?thesis
      by (subst wait_nreadybufs.simps) (simp add: poll_valid wait_nreadybufs.simps)
  next
    case False
    then have m0: "?m = 0" by simp
    have "1 \<le> fst (poll_nth env src k (poll_state env s))"
      using Suc.prems by (simp add: poll_valid alGetError_def clean_upd)
    from Suc.IH[OF _ _ this] Suc.prems
    obtain r where "wait_nreadybufs env src 0 (poll_state env s) = Some r"
      by auto
    with Suc.prems m0 show ?thesis
      by (subst wait_nreadybufs.simps) (simp add: poll_valid)
  qed
qed

section \<open>The two halves of \<open>sa_openal_write\<close>\<close>

lemma select_fast:
  assumes "source hdl \<in> sources s" and "al_errno s = AL_NO_ERROR"
    and "length (queue s) < NUM_BUFFERS" and "length (buffers hdl) = NUM_BUFFERS"
    and "buffers hdl ! length (queue s) \<noteq> - 1"
  shows "select_buffer env hdl s = Some (Return (buffers hdl ! length (queue s)) (queried env s))"
  using assms by (simp add: select_buffer_def queued_valid)

lemma select_slow:
  assumes "source hdl \<in> sources s" and "al_errno s = AL_NO_ERROR"
    and "length (buffers hdl) = NUM_BUFFERS"
    and "NUM_BUFFERS \<le> length (queue s) \<or> buffers hdl ! length (queue s) = - 1"
  shows "select_buffer env hdl s =
     (case wait_nreadybufs env (source hdl) 0 (queried env s) of
        None \<Rightarrow> None
      | Some (Abort e s3) \<Rightarrow> Some (Abort e s3)
      | Some (Return nreadybufs s3) \<Rightarrow>
          (case alSourceUnqueueBuffers env (source hdl) (- 1) s3 of (buffer', s4) \<Rightarrow>
             Some (then_do (assert_no_error s4) (\<lambda>u s5. Return buffer' s5))))"
  using assms by (auto simp: select_buffer_def queued_valid)

lemma select_slow_sound:
  assumes "select_buffer env hdl s = Some r"
    and "source hdl \<in> sources s" and "al_errno s = AL_NO_ERROR"
    and "length (buffers hdl) = NUM_BUFFERS"
    and "NUM_BUFFERS \<le> length (queue s) \<or> buffers hdl ! length (queue s) = - 1"
  shows "\<exists>k m s'. r = Return (hd (queue s)) s' \<and> queue s \<noteq> [] \<and> queue s' = tl (queue s) \<and>
     1 \<le> m \<and> m = fst (poll_nth env (source hdl) k (queried env s)) \<and>
     sources s' = sources s \<and> gen_bufs s' = gen_bufs s \<and> al_errno s' = AL_NO_ERROR \<and>
     calls s' = calls s @ [AlGetSourcei_QUEUED (int (length (queue s)))] @
        replicate k (AlGetSourcei_PROCESSED 0) @
        [AlGetSourcei_PROCESSED m, AlSourceUnqueueBuffers (hd (queue s))]"
proof -
  let ?q = "queried env s"
  from assms(1) select_slow[OF assms(2-5), of env]
  obtain w where w: "wait_nreadybufs env (source hdl) 0 ?q = Some w"
    by (cases "wait_nreadybufs env (source hdl) 0 ?q") auto
  from wait_sound[OF w] assms(2,3) obtain k m s3 where
    r: "w = Return m s3" "1 \<le> m" "m = int (buffers_processed s3)"
       "m = fst (poll_nth env (source hdl) k ?q)"
       "queue s3 = queue s" "sources s3 = sources s" "gen_bufs s3 = gen_bufs s"
       "al_errno s3 = AL_NO_ERROR"
       "calls s3 = calls ?q @ replicate k (AlGetSourcei_PROCESSED 0) @ [AlGetSourcei_PROCESSED m]"
    by auto
  have bp: "1 \<le> buffers_processed s3" using r(2,3) by simp
  have ne: "queue s \<noteq> []" using bp processed_le_queue[of s3] r(5) by auto
  have src3: "source hdl \<in> sources s3" using r(6) assms(2) by simp
  let ?s4 = "logc (AlSourceUnqueueBuffers (hd (queue s3)))
        ((tick env s3)\<lparr>queue := tl (queue s3), played := played (tick env s3) - 1\<rparr>)"
  have "r = Return (hd (queue s)) ?s4"
    using assms(1) select_slow[OF assms(2-5), of env] w r(1,5,8)
    by (simp add: unqueue_ok[OF src3 bp])
  then show ?thesis using r ne
    by (intro exI[of _ k] exI[of _ m] exI[of _ ?s4]) simp
qed

lemma select_slow_complete:
  assumes "source hdl \<in> sources s" and "al_errno s = AL_NO_ERROR"
    and "length (buffers hdl) = NUM_BUFFERS"
    and "NUM_BUFFERS \<le> length (queue s) \<or> buffers hdl ! length (queue s) = - 1"
    and "1 \<le> fst (poll_nth env (source hdl) k (queried env s))"
  shows "\<exists>r. select_buffer env hdl s = Some r"
proof -
  obtain w where w: "wait_nreadybufs env (source hdl) 0 (queried env s) = Some w"
    using wait_complete[OF _ _ assms(5)] assms(1,2) by auto
  then show ?thesis
    unfolding select_slow[OF assms(1-4)]
    by (cases w) (auto split: prod.splits)
qed

lemma fill_sound:
  assumes "fill_queue_play env sa hdl buf nframes b s = Return n s'"
    and "source hdl \<in> sources s" and "al_errno s = AL_NO_ERROR"
  shows "n = sint nframes \<and> b \<in> gen_bufs s \<and> b \<notin> set (queue s) \<and> 0 \<le> data_size sa nframes \<and>
    (\<exists>fmt. al_format (simpleaudio_get_format sa) (sint (simpleaudio_get_channels sa)) = Some fmt)"
  using assms
  by (auto simp: fill_queue_play_def alBufferData_def Let_def assert_no_error_def
      alGetError_def set_error_def alSourceQueueBuffers_def alGetSourcei_STATE_def
      split: option.splits if_splits prod.splits)

lemma fill_returns:
  assumes "source hdl \<in> sources s" and "al_errno s = AL_NO_ERROR"
    and "b \<in> gen_bufs s" and "b \<notin> set (queue s)" and "0 \<le> data_size sa nframes"
    and "al_format (simpleaudio_get_format sa) (sint (simpleaudio_get_channels sa)) = Some fmt"
  shows "\<exists>s' st. fill_queue_play env sa hdl buf nframes b s = Return (sint nframes) s' \<and>
     queue s' = queue s @ [b] \<and> src_state s' = AL_PLAYING \<and> al_errno s' = AL_NO_ERROR \<and>
     sources s' = sources s \<and> gen_bufs s' = gen_bufs s \<and>
     stored s' b = Some (fmt, take (nat (data_size sa nframes)) buf, simpleaudio_get_rate sa) \<and>
     calls s' = calls s @
       [AlBufferData b fmt (take (nat (data_size sa nframes)) buf) (data_size sa nframes)
          (simpleaudio_get_rate sa),
        AlSourceQueueBuffers b, AlGetSourcei_STATE (Some st)] @
       (if st \<noteq> AL_PLAYING then [AlSourcePlay] else [])"
  using assms
  by (auto simp: fill_queue_play_def alBufferData_def Let_def
      alSourceQueueBuffers_def alGetSourcei_STATE_def alSourcePlay_def)

lemma new_calls_append [simp]: "calls s' = calls s @ cs \<Longrightarrow> new_calls s s' = cs"
  by (simp add: new_calls_def)

lemma write_returned:
  assumes hdl: "backend_handle sa = Some hdl" and ok: "session_ok hdl s"
    and w: "sa_openal_write env sa buf nframes s = Some (Return n s')"
  shows "\<exists>b cs fmt st.
     n = sint nframes \<and>
     calls s' = calls s @ cs @
       [AlBufferData b fmt (take (nat (data_size sa nframes)) buf) (data_size sa nframes)
          (simpleaudio_get_rate sa),
        AlSourceQueueBuffers b, AlGetSourcei_STATE (Some st)] @
       (if st \<noteq> AL_PLAYING then [AlSourcePlay] else []) \<and>
     (length (queue s) < NUM_BUFFERS \<and> buffers hdl ! length (queue s) \<noteq> - 1 \<and>
        b = buffers hdl ! length (queue s) \<and> b \<notin> set (queue s) \<and>
        cs = [AlGetSourcei_QUEUED (int (length (queue s)))] \<and> queue s' = queue s @ [b]
      \<or>
      (NUM_BUFFERS \<le> length (queue s) \<or> buffers hdl ! length (queue s) = - 1) \<and>
        queue s \<noteq> [] \<and> b = hd (queue s) \<and> b \<notin> set (tl (queue s)) \<and>
        (\<exists>k m. 1 \<le> m \<and> m = fst (poll_nth env (source hdl) k (queried env s)) \<and>
           cs = [AlGetSourcei_QUEUED (int (length (queue s)))] @
                replicate k (AlGetSourcei_PROCESSED 0) @
                [AlGetSourcei_PROCESSED m, AlSourceUnqueueBuffers b]) \<and>
        queue s' = tl (queue s) @ [b]) \<and>
     src_state s' = AL_PLAYING \<and> session_ok hdl s' \<and> gen_bufs s' = gen_bufs s \<and>
     b \<in> gen_bufs s \<and> 0 \<le> data_size sa nframes \<and>
     stored s' b = Some (fmt, take (nat (data_size sa nframes)) buf, simpleaudio_get_rate sa) \<and>
     al_format (simpleaudio_get_format sa) (sint (simpleaudio_get_channels sa)) = Some fmt"
proof -
  from ok have src: "source hdl \<in> sources s" and cl: "al_errno s = AL_NO_ERROR"
    and len: "length (buffers hdl) = NUM_BUFFERS"
    by (simp_all add: session_ok_def)
  from w hdl obtain b s1 where
    sel: "select_buffer env hdl s = Some (Return b s1)"
    and fill: "fill_queue_play env sa hdl buf nframes b s1 = Return n s'"
    by (auto simp: sa_openal_write_def split: option.splits result.splits)
  show ?thesis
  proof (cases "length (queue s) < NUM_BUFFERS \<and> buffers hdl ! length (queue s) \<noteq> - 1")
    case True
    with select_fast[OF src cl _ len, of env] sel
    have b: "b = buffers hdl ! length (queue s)" and s1: "s1 = queried env s"
      by simp_all
    have src1: "source hdl \<in> sources s1" and cl1: "al_errno s1 = AL_NO_ERROR"
      using s1 src cl by simp_all
    from fill_sound[OF fill src1 cl1] obtain fmt where
      f: "n = sint nframes" "b \<in> gen_bufs s1" "b \<notin> set (queue s1)" "0 \<le> data_size sa nframes"
         "al_format (simpleaudio_get_format sa) (sint (simpleaudio_get_channels sa)) = Some fmt"
      by auto
    from fill_returns[where env=env and buf=buf, OF src1 cl1 f(2,3,4,5)] fill obtain st where
      r: "queue s' = queue s1 @ [b]" "src_state s' = AL_PLAYING" "al_errno s' = AL_NO_ERROR"
         "sources s' = sources s1" "gen_bufs s' = gen_bufs s1"
         "stored s' b = Some (fmt, take (nat (data_size sa nframes)) buf, simpleaudio_get_rate sa)"
         "calls s' = calls s1 @
           [AlBufferData b fmt (take (nat (data_size sa nframes)) buf) (data_size sa nframes)
              (simpleaudio_get_rate sa),
            AlSourceQueueBuffers b, AlGetSourcei_STATE (Some st)] @
           (if st \<noteq> AL_PLAYING then [AlSourcePlay] else [])"
      by auto
    show ?thesis
      apply (rule exI[of _ b], rule exI[of _ "[AlGetSourcei_QUEUED (int (length (queue s)))]"],
          rule exI[of _ fmt], rule exI[of _ st])
      using True f r b s1 src cl len by (simp add: session_ok_def)
  next
    case False
    then have slow: "NUM_BUFFERS \<le> length (queue s) \<or> buffers hdl ! length (queue s) = - 1"
      by auto
    from select_slow_sound[OF sel src cl len slow] obtain k m where
      s: "b = hd (queue s)" "queue s \<noteq> []" "queue s1 = tl (queue s)" "1 \<le> m"
         "m = fst (poll_nth env (source hdl) k (queried env s))"
         "sources s1 = sources s" "gen_bufs s1 = gen_bufs s" "al_errno s1 = AL_NO_ERROR"
         "calls s1 = calls s @ [AlGetSourcei_QUEUED (int (length (queue s)))] @
            replicate k (AlGetSourcei_PROCESSED 0) @
            [AlGetSourcei_PROCESSED m, AlSourceUnqueueBuffers (hd (queue s))]"
      by auto
    have src1: "source hdl \<in> sources s1" using s(6) src by simp
    from fill_sound[OF fill src1 s(8)] obtain fmt where
      f: "n = sint nframes" "b \<in> gen_bufs s1" "b \<notin> set (queue s1)" "0 \<le> data_size sa nframes"
         "al_format (simpleaudio_get_format sa) (sint (simpleaudio_get_channels sa)) = Some fmt"
      by auto
    from fill_returns[where env=env and buf=buf, OF src1 s(8) f(2,3,4,5)] fill obtain st where
      r: "queue s' = queue s1 @ [b]" "src_state s' = AL_PLAYING" "al_errno s' = AL_NO_ERROR"
         "sources s' = sources s1" "gen_bufs s' = gen_bufs s1"
         "stored s' b = Some (fmt, take (nat (data_size sa nframes)) buf, simpleaudio_get_rate sa)"
         "calls s' = calls s1 @
           [AlBufferData b fmt (take (nat (data_size sa nframes)) buf) (data_size sa nframes)
              (simpleaudio_get_rate sa),
            AlSourceQueueBuffers b, AlGetSourcei_STATE (Some st)] @
           (if st \<noteq> AL_PLAYING then [AlSourcePlay] else [])"
      by auto
    show ?thesis
      apply (rule exI[of _ b], rule exI[of _ "[AlGetSourcei_QUEUED (int (length (queue s)))] @
            replicate k (AlGetSourcei_PROCESSED 0) @
            [AlGetSourcei_PROCESSED m, AlSourceUnqueueBuffers b]"],
          rule exI[of _ fmt], rule exI[of _ st])
      using slow f r s src cl len by (auto simp: session_ok_def)
  qed
qed

section \<open>The concrete device and session\<close>

lemma length_pool128 [simp]: "length pool128 = 128"
  by (simp add: pool128_def)

lemma nth_pool128: "k < 128 \<Longrightarrow> pool128 ! k = of_nat (Suc k)"
  by (simp add: pool128_def)

lemma unat_of_nat32: "n < 2 ^ 32 \<Longrightarrow> unat (of_nat n :: 32 word) = n"
  by (simp add: unat_of_nat)

lemma pool128_not_sentinel:
  assumes "k < 128"
  shows "pool128 ! k \<noteq> - 1"
proof
  assume "pool128 ! k = - 1"
  then have "(of_nat (Suc k) :: 32 word) = - 1"
    using assms by (simp only: nth_pool128)
  then have "unat (of_nat (Suc k) :: 32 word) = unat (- 1 :: 32 word)"
    by (rule arg_cong)
  moreover have "unat (of_nat (Suc k) :: 32 word) = Suc k"
    using assms by (intro unat_of_nat32) simp
  moreover have "unat (- 1 :: 32 word) = 4294967295"
    by (simp add: unsigned_minus_1_eq_mask mask_eq_exp_minus_1)
  ultimately have "Suc k = 4294967295" by linarith
  then show False using assms by simp
qed

lemma distinct_pool128: "distinct pool128"
proof -
  have "inj_on (of_nat :: nat \<Rightarrow> 32 word) (set [1..<129])"
  proof (rule inj_onI)
    fix x y :: nat
    assume "x \<in> set [1..<129]" "y \<in> set [1..<129]" and e: "(of_nat x :: 32 word) = of_nat y"
    then have "x < 2 ^ 32" "y < 2 ^ 32" by auto
    then have "unat (of_nat x :: 32 word) = x" "unat (of_nat y :: 32 word) = y"
      by (simp_all add: unat_of_nat)
    with e show "x = y" by metis
  qed
  then show ?thesis by (simp add: pool128_def distinct_map)
qed

lemma pool128_nonempty: "pool128 \<noteq> []"
  using length_pool128 by fastforce

lemma hd_pool128: "hd pool128 = 1"
  using nth_pool128[of 0] by (simp add: hd_conv_nth[OF pool128_nonempty])

lemma open_boot:
  "sa_openal_open_stream (env0 f) sa0 None SA_STREAM_PLAYBACK SA_SAMPLE_FORMAT_S16 44100 1 [] [] boot
     = Return (1, sa1) opened"
  by (simp add: sa_openal_open_stream_def env0_def boot_def sa0_def sa1_def hdl0_def opened_def
      malloc_def alcOpenDevice_def alcCreateContext_def alcMakeContextCurrent_def
      alGenSources_def alGenBuffers_def logc_def assert_no_error_def alGetError_def
      NUM_BUFFERS_def)

section \<open>Whole writes\<close>

lemma write_slow_iff:
  assumes hdl: "backend_handle sa = Some hdl" and ok: "session_ok hdl s"
    and slow: "NUM_BUFFERS \<le> length (queue s) \<or> buffers hdl ! length (queue s) = - 1"
  shows "(sa_openal_write env sa buf nframes s \<noteq> None) =
         (\<exists>k. 1 \<le> fst (poll_nth env (source hdl) k (queried env s)))"
proof
  from ok have src: "source hdl \<in> sources s" and cl: "al_errno s = AL_NO_ERROR"
    and len: "length (buffers hdl) = NUM_BUFFERS"
    by (simp_all add: session_ok_def)
  {
    assume "sa_openal_write env sa buf nframes s \<noteq> None"
    then obtain r where "select_buffer env hdl s = Some r"
      using hdl by (auto simp: sa_openal_write_def split: option.splits)
    from select_slow_sound[OF this src cl len slow]
    show "\<exists>k. 1 \<le> fst (poll_nth env (source hdl) k (queried env s))" by blast
  next
    assume "\<exists>k. 1 \<le> fst (poll_nth env (source hdl) k (queried env s))"
    then obtain k where "1 \<le> fst (poll_nth env (source hdl) k (queried env s))" ..
    from select_slow_complete[OF src cl len slow this]
    obtain r where "select_buffer env hdl s = Some r" ..
    then show "sa_openal_write env sa buf nframes s \<noteq> None"
      using hdl by (cases r) (simp_all add: sa_openal_write_def)
  }
qed

section \<open>Opening, and the first write\<close>

lemma open_success:
  assumes "sa_openal_open_stream env sa_in backend_device dir fmt rt ch app nm s0 = Return (1, sa) s"
  shows "dir = SA_STREAM_PLAYBACK \<and> src_state s = AL_INITIAL \<and> queue s = [] \<and>
    al_errno s = AL_NO_ERROR \<and>
    (\<exists>d c src names. device_ptr env = Some d \<and> context_ptr env = Inr c \<and>
       source_gen env = Some src \<and> buffers_gen env = Some names \<and>
       sa = sa_in\<lparr>backend_handle :=
                   Some \<lparr>device = Some d, context_h = Some c, source = src,
                         buffers = take NUM_BUFFERS names, direction = dir\<rparr>,
                 backend_framesize := channels sa_in * samplesize sa_in\<rparr> \<and>
       src \<in> sources s \<and> gen_bufs s = gen_bufs s0 \<union> set (take NUM_BUFFERS names) \<and>
       devices s = insert d (devices s0) \<and> contexts s = insert c (contexts s0) \<and>
       calls s = calls s0 @
         [AlcOpenDevice (Some d), AlcCreateContext (Some c), AlcMakeContextCurrent (Some c),
          AlGenSources, AlGenBuffers NUM_BUFFERS])"
  using assms
  by (auto simp: sa_openal_open_stream_def malloc_def alcOpenDevice_def alcCreateContext_def
      alcMakeContextCurrent_def alGenSources_def alGenBuffers_def assert_no_error_def
      alGetError_def set_error_def open_fail_def Let_def
      split: sa_direction_t.splits option.splits sum.splits if_splits prod.splits)

lemma tick_not_playing: "src_state s \<noteq> AL_PLAYING \<Longrightarrow> src_state (tick env s) = src_state s"
  by (simp add: tick_def device_advance_def)

lemma fill_starts_playback:
  assumes "fill_queue_play env sa hdl buf nframes b s = Return n s'"
    and "source hdl \<in> sources s" and "al_errno s = AL_NO_ERROR"
    and "src_state s \<noteq> AL_PLAYING"
  shows "AlSourcePlay \<in> set (new_calls s s')"
  using assms
  by (auto simp: fill_queue_play_def alBufferData_def Let_def assert_no_error_def
      alGetError_def set_error_def alSourceQueueBuffers_def alGetSourcei_STATE_def
      alSourcePlay_def new_calls_def tick_not_playing
      split: option.splits if_splits prod.splits)

section \<open>The byte count of a write that fits\<close>






section \<open>Writes that return\<close>

lemma write_fast_returns:
  assumes hdl: "backend_handle sa = Some hdl" and ok: "session_ok hdl s"
    and "length (queue s) < NUM_BUFFERS" and "buffers hdl ! length (queue s) \<noteq> - 1"
    and "buffers hdl ! length (queue s) \<in> gen_bufs s"
    and "buffers hdl ! length (queue s) \<notin> set (queue s)"
    and "0 \<le> data_size sa nframes"
    and "al_format (simpleaudio_get_format sa) (sint (simpleaudio_get_channels sa)) = Some fmt"
  shows "\<exists>s'. sa_openal_write env sa buf nframes s = Some (Return (sint nframes) s')"
proof -
  from ok have src: "source hdl \<in> sources s" and cl: "al_errno s = AL_NO_ERROR"
    and len: "length (buffers hdl) = NUM_BUFFERS"
    by (simp_all add: session_ok_def)
  have sel: "select_buffer env hdl s =
      Some (Return (buffers hdl ! length (queue s)) (queried env s))"
    by (rule select_fast[OF src cl assms(3) len assms(4)])
  from fill_returns[where env=env and buf=buf and hdl=hdl and s="queried env s"
      and b="buffers hdl ! length (queue s)", OF _ _ _ _ assms(7,8)] src cl assms(5,6)
  obtain s' where "fill_queue_play env sa hdl buf nframes (buffers hdl ! length (queue s))
      (queried env s) = Return (sint nframes) s'"
    by auto
  then show ?thesis using hdl sel by (simp add: sa_openal_write_def)
qed

lemma write_slow_returns:
  assumes hdl: "backend_handle sa = Some hdl" and ok: "session_ok hdl s"
    and slow: "NUM_BUFFERS \<le> length (queue s) \<or> buffers hdl ! length (queue s) = - 1"
    and poll: "1 \<le> fst (poll_nth env (source hdl) k (queried env s))"
    and "hd (queue s) \<in> gen_bufs s" and "hd (queue s) \<notin> set (tl (queue s))"
    and "0 \<le> data_size sa nframes"
    and "al_format (simpleaudio_get_format sa) (sint (simpleaudio_get_channels sa)) = Some fmt"
  shows "\<exists>s'. sa_openal_write env sa buf nframes s = Some (Return (sint nframes) s')"
proof -
  from ok have src: "source hdl \<in> sources s" and cl: "al_errno s = AL_NO_ERROR"
    and len: "length (buffers hdl) = NUM_BUFFERS"
    by (simp_all add: session_ok_def)
  from select_slow_complete[OF src cl len slow poll]
  obtain r where sel: "select_buffer env hdl s = Some r" ..
  from select_slow_sound[OF sel src cl len slow] obtain s1 where
    r: "r = Return (hd (queue s)) s1" "queue s1 = tl (queue s)" "sources s1 = sources s"
       "gen_bufs s1 = gen_bufs s" "al_errno s1 = AL_NO_ERROR"
    by auto
  from fill_returns[where env=env and buf=buf and hdl=hdl and s=s1
      and b="hd (queue s)", OF _ _ _ _ assms(7,8)] src r assms(5,6)
  obtain s' where "fill_queue_play env sa hdl buf nframes (hd (queue s)) s1
      = Return (sint nframes) s'"
    by auto
  then show ?thesis using hdl sel r(1) by (simp add: sa_openal_write_def)
qed

lemma hdl_sa1: "backend_handle sa1 = Some hdl0"
  by (simp add: sa1_def)

lemma ok_opened: "session_ok hdl0 opened"
  by (simp add: session_ok_def hdl0_def opened_def boot_def NUM_BUFFERS_def)

lemma ok_full: "session_ok hdl0 full"
  by (simp add: session_ok_def hdl0_def full_def opened_def boot_def NUM_BUFFERS_def)

lemma format_sa1:
  "al_format (simpleaudio_get_format sa1) (sint (simpleaudio_get_channels sa1)) = Some AL_FORMAT_MONO16"
  by (simp add: al_format_def simpleaudio_get_format_def simpleaudio_get_channels_def sa1_def sa0_def)

lemma write_first_returns:
  "0 \<le> data_size sa1 nframes \<Longrightarrow>
   \<exists>s'. sa_openal_write (env0 f) sa1 buf nframes opened = Some (Return (sint nframes) s')"
proof -
  assume sz: "0 \<le> data_size sa1 nframes"
  have q: "queue opened = []" by (simp add: opened_def boot_def)
  have g: "gen_bufs opened = set pool128" by (simp add: opened_def boot_def)
  have b: "buffers hdl0 = pool128" by (simp add: hdl0_def)
  show ?thesis
    by (rule write_fast_returns[OF hdl_sa1 ok_opened _ _ _ _ sz format_sa1])
      (simp_all add: q g b NUM_BUFFERS_def pool128_not_sentinel)
qed

lemma poll_full: "1 \<le> fst (poll_nth (env0 steady) 1 0 (queried (env0 steady) full))"
  by (simp add: alGetSourcei_PROCESSED_def queried_def tick_def device_advance_def
      buffers_processed_def logc_def full_def opened_def boot_def env0_def steady_def Let_def)

lemma hd_notin_tl: "distinct xs \<Longrightarrow> xs \<noteq> [] \<Longrightarrow> hd xs \<notin> set (tl xs)"
  by (cases xs) simp_all

lemma write_full_returns:
  "0 \<le> data_size sa1 nframes \<Longrightarrow>
   \<exists>s'. sa_openal_write (env0 steady) sa1 buf nframes full = Some (Return (sint nframes) s')"
proof -
  assume sz: "0 \<le> data_size sa1 nframes"
  have q: "queue full = pool128" by (simp add: full_def opened_def boot_def)
  have g: "gen_bufs full = set pool128" by (simp add: full_def opened_def boot_def)
  have s: "source hdl0 = 1" by (simp add: hdl0_def)
  have p: "1 \<le> fst (poll_nth (env0 steady) (source hdl0) 0 (queried (env0 steady) full))"
    using poll_full by (simp only: s)
  show ?thesis
    by (rule write_slow_returns[OF hdl_sa1 ok_full _ p _ _ sz format_sa1])
      (simp_all add: q g NUM_BUFFERS_def pool128_nonempty
        hd_notin_tl[OF distinct_pool128 pool128_nonempty])
qed

section \<open>What a write uploads\<close>

lemma uploads_append [simp]: "uploads (xs @ ys) = uploads xs @ uploads ys"
  by (induction xs rule: uploads.induct) simp_all

lemma uploads_polls [simp]: "uploads (replicate k (AlGetSourcei_PROCESSED v)) = []"
  by (induction k) simp_all




section \<open>Filling the pool in order\<close>

lemma write_in_order:
  assumes hdl: "backend_handle sa = Some hdl" and ok: "session_ok hdl s"
    and ord: "pool_in_order hdl s" and room: "length (queue s) < NUM_BUFFERS"
    and sz: "0 \<le> data_size sa nframes"
    and fmt: "al_format (simpleaudio_get_format sa) (sint (simpleaudio_get_channels sa)) = Some fmt"
  shows "\<exists>s' cs. sa_openal_write env sa buf nframes s = Some (Return (sint nframes) s') \<and>
     session_ok hdl s' \<and> pool_in_order hdl s' \<and>
     queue s' = take (Suc (length (queue s))) (buffers hdl) \<and>
     calls s' = calls s @ cs \<and>
     uploads cs = [(buffers hdl ! length (queue s), take (nat (data_size sa nframes)) buf)] \<and>
     \<not> list_ex is_poll cs"
proof -
  let ?n = "length (queue s)" and ?b = "buffers hdl ! length (queue s)"
  from ok have len: "length (buffers hdl) = NUM_BUFFERS" by (simp add: session_ok_def)
  from ord have d: "distinct (buffers hdl)" and ns: "- 1 \<notin> set (buffers hdl)"
    and g: "set (buffers hdl) \<subseteq> gen_bufs s" and q: "queue s = take ?n (buffers hdl)"
    by (simp_all add: pool_in_order_def)
  have n: "?n < length (buffers hdl)" using room len by simp
  have b1: "?b \<noteq> - 1" using ns nth_mem[OF n] by metis
  have b2: "?b \<in> gen_bufs s" using g nth_mem[OF n] by blast
  have "?b \<notin> set (take ?n (buffers hdl))"
  proof
    assume "?b \<in> set (take ?n (buffers hdl))"
    then obtain i where i: "i < ?n" "take ?n (buffers hdl) ! i = ?b"
      by (auto simp: in_set_conv_nth)
    then have "buffers hdl ! i = buffers hdl ! ?n" by simp
    with d i(1) n show False by (simp add: nth_eq_iff_index_eq)
  qed
  then have b3: "?b \<notin> set (queue s)" using q by simp
  from write_fast_returns[OF hdl ok room b1 b2 b3 sz fmt, of env buf]
  obtain s' where w: "sa_openal_write env sa buf nframes s = Some (Return (sint nframes) s')" ..
  from write_returned[OF hdl ok w] b1 room obtain fmt' st where
    c: "calls s' = calls s @ [AlGetSourcei_QUEUED (int ?n)] @
       [AlBufferData ?b fmt' (take (nat (data_size sa nframes)) buf) (data_size sa nframes)
          (simpleaudio_get_rate sa),
        AlSourceQueueBuffers ?b, AlGetSourcei_STATE (Some st)] @
       (if st \<noteq> AL_PLAYING then [AlSourcePlay] else [])"
    and q': "queue s' = queue s @ [?b]" and ok': "session_ok hdl s'"
    and g': "gen_bufs s' = gen_bufs s"
    by auto
  have q'': "queue s' = take (Suc ?n) (buffers hdl)"
    using q' q n by (simp add: take_Suc_conv_app_nth)
  have "length (queue s') = Suc ?n" using q' by simp
  then have ord': "pool_in_order hdl s'"
    using d ns g g' q'' by (simp add: pool_in_order_def)
  show ?thesis
    apply (rule exI[of _ s'])
    apply (rule exI[of _ "[AlGetSourcei_QUEUED (int ?n)] @
       [AlBufferData ?b fmt' (take (nat (data_size sa nframes)) buf) (data_size sa nframes)
          (simpleaudio_get_rate sa),
        AlSourceQueueBuffers ?b, AlGetSourcei_STATE (Some st)] @
       (if st \<noteq> AL_PLAYING then [AlSourcePlay] else [])"])
    using w ok' ord' q'' c by simp
qed

lemma writes_in_order:
  assumes hdl: "backend_handle sa = Some hdl"
    and fmt: "al_format (simpleaudio_get_format sa) (sint (simpleaudio_get_channels sa)) = Some fmt"
  shows "session_ok hdl s \<Longrightarrow> pool_in_order hdl s \<Longrightarrow>
     length (queue s) + length chunks \<le> NUM_BUFFERS \<Longrightarrow>
     list_all (\<lambda>(buf, nframes). 0 \<le> data_size sa nframes) chunks \<Longrightarrow>
     \<exists>t cs. sa_openal_writes env sa chunks s =
         Some (Return (map (\<lambda>(buf, nframes). sint nframes) chunks) t) \<and>
       session_ok hdl t \<and> pool_in_order hdl t \<and>
       queue t = take (length (queue s) + length chunks) (buffers hdl) \<and>
       calls t = calls s @ cs \<and>
       map fst (uploads cs) = take (length chunks) (drop (length (queue s)) (buffers hdl)) \<and>
       \<not> list_ex is_poll cs"
proof (induction chunks arbitrary: s)
  case Nil
  then show ?case by (simp add: pool_in_order_def)
next
  case (Cons c chunks)
  obtain buf nframes where c: "c = (buf, nframes)" by (cases c)
  from Cons.prems(3) have room: "length (queue s) < NUM_BUFFERS" by simp
  from Cons.prems(4) c have sz: "0 \<le> data_size sa nframes"
    and szs: "list_all (\<lambda>(buf, nframes). 0 \<le> data_size sa nframes) chunks"
    by simp_all
  from Cons.prems(1) have len: "length (buffers hdl) = NUM_BUFFERS" by (simp add: session_ok_def)
  from write_in_order[OF hdl Cons.prems(1,2) room sz fmt, of env buf]
  obtain s1 cs1 where
    1: "sa_openal_write env sa buf nframes s = Some (Return (sint nframes) s1)"
       "session_ok hdl s1" "pool_in_order hdl s1"
       "queue s1 = take (Suc (length (queue s))) (buffers hdl)"
       "calls s1 = calls s @ cs1"
       "uploads cs1 = [(buffers hdl ! length (queue s), take (nat (data_size sa nframes)) buf)]"
       "\<not> list_ex is_poll cs1"
    by blast
  have l1: "length (queue s1) = Suc (length (queue s))"
    using 1(4) room len by simp
  from Cons.IH[OF 1(2,3) _ szs] l1 Cons.prems(3)
  obtain t cs2 where
    2: "sa_openal_writes env sa chunks s1 =
         Some (Return (map (\<lambda>(buf, nframes). sint nframes) chunks) t)"
       "session_ok hdl t" "pool_in_order hdl t"
       "queue t = take (length (queue s1) + length chunks) (buffers hdl)"
       "calls t = calls s1 @ cs2"
       "map fst (uploads cs2) = take (length chunks) (drop (length (queue s1)) (buffers hdl))"
       "\<not> list_ex is_poll cs2"
    by auto
  have n: "length (queue s) < length (buffers hdl)" using room len by simp
  have "map fst (uploads (cs1 @ cs2)) =
      take (length (c # chunks)) (drop (length (queue s)) (buffers hdl))"
    using 1(6) 2(6) l1 n
    by (simp add: uploads_append take_Suc_conv_app_nth drop_Suc
        Cons_nth_drop_Suc[symmetric] del: Cons_nth_drop_Suc)
  moreover have "calls t = calls s @ (cs1 @ cs2)" using 1(5) 2(5) by simp
  moreover have "\<not> list_ex is_poll (cs1 @ cs2)" using 1(7) 2(7) by simp
  moreover have "queue t = take (length (queue s) + length (c # chunks)) (buffers hdl)"
    using 2(4) l1 by simp
  moreover have "sa_openal_writes env sa (c # chunks) s =
         Some (Return (map (\<lambda>(buf, nframes). sint nframes) (c # chunks)) t)"
    using 1(1) 2(1) c by simp
  ultimately show ?case using 2(2,3) by blast
qed

lemma sentinel_notin_pool128: "- 1 \<notin> set pool128"
proof
  assume "- 1 \<in> set pool128"
  then obtain k where "k < length pool128" "pool128 ! k = - 1"
    by (auto simp: in_set_conv_nth)
  then show False using pool128_not_sentinel[of k] by simp
qed

lemma order_opened: "pool_in_order hdl0 opened"
  by (simp add: pool_in_order_def hdl0_def opened_def boot_def distinct_pool128
      sentinel_notin_pool128)

lemma queue_opened: "queue opened = []"
  by (simp add: opened_def boot_def)

lemma buffers_hdl0: "buffers hdl0 = pool128"
  by (simp add: hdl0_def)


section \<open>The sentinel\<close>

lemma fill_calls:
  "\<exists>cs. calls (result_state (fill_queue_play env sa hdl buf nframes b s)) = calls s @ cs \<and>
        \<not> list_ex is_poll cs"
  by (auto simp: fill_queue_play_def alBufferData_def Let_def assert_no_error_def
      alGetError_def set_error_def alSourceQueueBuffers_def alGetSourcei_STATE_def
      alSourcePlay_def
      split: option.splits if_splits prod.splits)

lemma poll_nth_le_queue:
  "src \<in> sources s \<Longrightarrow> al_errno s = AL_NO_ERROR \<Longrightarrow>
   fst (poll_nth env src k s) \<le> int (length (queue s))"
proof (induction k arbitrary: s)
  case 0
  then show ?case
    using processed_le_queue[of "tick env s"] by (simp add: poll_valid)
next
  case (Suc k)
  have "fst (poll_nth env src k (poll_state env s)) \<le> int (length (queue (poll_state env s)))"
    by (rule Suc.IH) (simp_all add: Suc.prems)
  then show ?case using Suc.prems by (simp add: poll_valid alGetError_def clean_upd)
qed

lemma write_empty_queue_sentinel:
  assumes hdl: "backend_handle sa = Some hdl" and ok: "session_ok hdl s"
    and q: "queue s = []" and b: "buffers hdl ! 0 = - 1"
  shows "sa_openal_write env sa buf nframes s = None"
proof (rule ccontr)
  assume "sa_openal_write env sa buf nframes s \<noteq> None"
  with write_slow_iff[OF hdl ok, of env buf nframes] q b
  obtain k where k: "1 \<le> fst (poll_nth env (source hdl) k (queried env s))" by auto
  from ok have "source hdl \<in> sources (queried env s)" "al_errno (queried env s) = AL_NO_ERROR"
    by (simp_all add: session_ok_def)
  from poll_nth_le_queue[OF this, of env k] q k show False by simp
qed

lemma length_pool_s [simp]: "length pool_s = 128"
  by (simp add: pool_s_def)

lemma pool_s_0: "pool_s ! 0 = - 1"
  by (simp add: pool_s_def)

lemma open_boot_s:
  "sa_openal_open_stream (env_s f) sa0 None SA_STREAM_PLAYBACK SA_SAMPLE_FORMAT_S16 44100 1 [] [] boot
     = Return (1, sa_s) opened_s"
  by (simp add: sa_openal_open_stream_def env_s_def env0_def boot_def sa0_def sa1_def sa_s_def
      hdl0_def hdl_s_def opened_s_def opened_def
      malloc_def alcOpenDevice_def alcCreateContext_def alcMakeContextCurrent_def
      alGenSources_def alGenBuffers_def logc_def assert_no_error_def alGetError_def
      NUM_BUFFERS_def)

lemma hdl_sa_s: "backend_handle sa_s = Some hdl_s"
  by (simp add: sa_s_def)

lemma ok_opened_s: "session_ok hdl_s opened_s"
  by (simp add: session_ok_def hdl_s_def hdl0_def opened_s_def opened_def boot_def NUM_BUFFERS_def)

lemma one_in_pool128: "1 \<in> set pool128"
  using nth_mem[of 0 pool128] nth_pool128[of 0] by simp

lemma hdl_sa_t: "backend_handle sa_t = Some hdl_t"
  by (simp add: sa_t_def)

lemma ok_one_played: "session_ok hdl_t one_played"
  by (simp add: session_ok_def hdl_t_def hdl0_def one_played_def opened_def boot_def
      NUM_BUFFERS_def)

lemma format_sa_t:
  "al_format (simpleaudio_get_format sa_t) (sint (simpleaudio_get_channels sa_t)) = Some AL_FORMAT_MONO16"
  by (simp add: al_format_def simpleaudio_get_format_def simpleaudio_get_channels_def sa_t_def
      sa1_def sa0_def)

lemma poll_one_played:
  "1 \<le> fst (poll_nth (env0 still) (source hdl_t) 0 (queried (env0 still) one_played))"
  by (simp add: alGetSourcei_PROCESSED_def queried_def tick_def device_advance_def
      buffers_processed_def logc_def one_played_def opened_def boot_def env0_def still_def
      hdl_t_def hdl0_def Let_def)

lemma sentinel_at_1: "buffers hdl_t ! length (queue one_played) = - 1"
  by (simp add: hdl_t_def one_played_def)



section \<open>The waiting loop of \<open>sa_openal_close\<close>\<close>


lemma state_poll_fields [simp]:
  "sources (state_poll env s) = sources s"
  "gen_bufs (state_poll env s) = gen_bufs s"
  "queue (state_poll env s) = queue s"
  "al_errno (state_poll env s) = al_errno s"
  "devices (state_poll env s) = devices s"
  "contexts (state_poll env s) = contexts s"
  "src_state (state_poll env s) = src_state (tick env s)"
  "calls (state_poll env s) = calls s @ [AlGetSourcei_STATE (Some (src_state (tick env s)))]"
  by (simp_all add: state_poll_def)








lemma playing_or_drained:
  "(sa_openal_open_stream env sa_in backend_device dir fmt rt ch app nm s0 = Return (1, sa) s \<longrightarrow>
      drained s) \<and>
   (backend_handle sa = Some hdl \<longrightarrow> session_ok hdl s \<longrightarrow>
    sa_openal_write env sa buf nframes s = Some (Return n s') \<longrightarrow> src_state s' = AL_PLAYING)"
proof (intro conjI impI)
  assume "sa_openal_open_stream env sa_in backend_device dir fmt rt ch app nm s0 = Return (1, sa) s"
  from open_success[OF this] show "drained s"
    by (simp add: drained_def buffers_processed_def)
next
  assume "backend_handle sa = Some hdl" "session_ok hdl s"
    "sa_openal_write env sa buf nframes s = Some (Return n s')"
  from write_returned[OF this] show "src_state s' = AL_PLAYING" by blast
qed

section \<open>The discipline of the pool\<close>

text \<open>Every write that comes back, on a session that satisfies \<open>pool_inv\<close>, has made
  device calls that the monitor accepts, and leaves \<open>pool_inv\<close> true when it returns; so
  does every sequence of writes.\<close>

lemma track_append:
  "track (xs @ ys) st = (case track xs st of None \<Rightarrow> None | Some st' \<Rightarrow> track ys st')"
  by (induction xs arbitrary: st) (auto split: option.splits)

lemma track_polls:
  "track (replicate k (AlGetSourcei_PROCESSED 0)) (q, ready) = Some (q, ready \<and> k = 0)"
  by (induction k arbitrary: ready) auto

lemma track_select_slow:
  assumes "1 \<le> m" and "q \<noteq> []"
  shows "track ([AlGetSourcei_QUEUED n] @ replicate k (AlGetSourcei_PROCESSED 0) @
            [AlGetSourcei_PROCESSED m, AlSourceUnqueueBuffers (hd q)]) (q, ready) =
         Some (tl q, False)"
  using assms by (simp add: track_append track_polls)

lemma fill_tracked:
  assumes "source hdl \<in> sources s" and "al_errno s = AL_NO_ERROR"
    and "b \<notin> set (queue s)" and "length (queue s) < NUM_BUFFERS"
  shows "\<exists>cs. calls (result_state (fill_queue_play env sa hdl buf nframes b s)) = calls s @ cs \<and>
     track cs (queue s, ready) =
       Some (queue (result_state (fill_queue_play env sa hdl buf nframes b s)), ready) \<and>
     fst ` set (uploads cs) \<subseteq> {b} \<and>
     length (queue (result_state (fill_queue_play env sa hdl buf nframes b s))) \<le> NUM_BUFFERS"
proof (cases "al_format (simpleaudio_get_format sa) (sint (simpleaudio_get_channels sa))")
  case None
  then show ?thesis using assms(4) by (simp add: fill_queue_play_def)
next
  case (Some fmt)
  let ?c = "AlBufferData b fmt (take (nat (data_size sa nframes)) buf) (data_size sa nframes)
              (simpleaudio_get_rate sa)"
  show ?thesis
  proof (cases "b \<in> gen_bufs s \<and> 0 \<le> data_size sa nframes")
    case False
    then have "calls (result_state (fill_queue_play env sa hdl buf nframes b s)) = calls s @ [?c] \<and>
        queue (result_state (fill_queue_play env sa hdl buf nframes b s)) = queue s"
      using Some assms(1,2)
      by (auto simp: fill_queue_play_def alBufferData_def Let_def assert_no_error_def
          alGetError_def set_error_def)
    then show ?thesis using assms(3,4) by simp
  next
    case True
    from fill_returns[where env=env and buf=buf and hdl=hdl, OF assms(1,2) _ assms(3) _ Some] True
    obtain s' st where
      r: "fill_queue_play env sa hdl buf nframes b s = Return (sint nframes) s'"
         "queue s' = queue s @ [b]"
         "calls s' = calls s @ [?c, AlSourceQueueBuffers b, AlGetSourcei_STATE (Some st)] @
             (if st \<noteq> AL_PLAYING then [AlSourcePlay] else [])"
      by blast
    show ?thesis
      apply (rule exI[of _ "[?c, AlSourceQueueBuffers b, AlGetSourcei_STATE (Some st)] @
             (if st \<noteq> AL_PLAYING then [AlSourcePlay] else [])"])
      using r assms(3,4) by simp
  qed
qed


lemma nth_notin_take: "distinct xs \<Longrightarrow> n < length xs \<Longrightarrow> xs ! n \<notin> set (take n xs)"
  by (auto simp: in_set_conv_nth distinct_conv_nth)

lemma pool_inv_step:
  assumes inv: "pool_inv hdl s" and ok: "session_ok hdl s'"
    and q: "length (queue s) < NUM_BUFFERS \<and> queue s' = queue s @ [buffers hdl ! length (queue s)] \<or>
            queue s \<noteq> [] \<and> queue s' = tl (queue s) @ [hd (queue s)]"
  shows "pool_inv hdl s'"
proof -
  from inv have d: "distinct (buffers hdl)" and dq: "distinct (queue s)"
    and l: "length (queue s) \<le> NUM_BUFFERS"
    and st: "set (queue s) = set (take (length (queue s)) (buffers hdl))"
    and len: "length (buffers hdl) = NUM_BUFFERS"
    by (simp_all add: pool_inv_def session_ok_def)
  from q show ?thesis
  proof
    assume a: "length (queue s) < NUM_BUFFERS \<and>
       queue s' = queue s @ [buffers hdl ! length (queue s)]"
    then have n: "length (queue s) < length (buffers hdl)" using len by simp
    have "buffers hdl ! length (queue s) \<notin> set (queue s)"
      using nth_notin_take[OF d n] st by simp
    moreover have "set (queue s') = set (take (length (queue s')) (buffers hdl))"
      using a st n by (simp add: take_Suc_conv_app_nth)
    ultimately show ?thesis using a d dq ok by (simp add: pool_inv_def)
  next
    assume a: "queue s \<noteq> [] \<and> queue s' = tl (queue s) @ [hd (queue s)]"
    then have e: "queue s = hd (queue s) # tl (queue s)" by simp
    have 1: "distinct (queue s')" using dq a e by (metis distinct.simps(2) distinct1_rotate rotate1.simps(2))
    have 2: "length (queue s') = length (queue s)" using a by simp
    have 3: "set (queue s') = set (queue s)" using a e by (metis rotate1.simps(2) set_rotate1)
    show ?thesis using 1 2 3 d l st ok by (simp add: pool_inv_def)
  qed
qed

lemma write_tracked:
  assumes hdl: "backend_handle sa = Some hdl" and inv: "pool_inv hdl s"
    and w: "sa_openal_write env sa buf nframes s = Some r"
  shows "\<exists>cs ready'. calls (result_state r) = calls s @ cs \<and>
     track cs (queue s, ready) = Some (queue (result_state r), ready') \<and>
     fst ` set (uploads cs) \<subseteq> set (buffers hdl) \<and>
     length (queue (result_state r)) \<le> NUM_BUFFERS \<and>
     (returned r \<longrightarrow> pool_inv hdl (result_state r))"
proof -
  from inv have ok: "session_ok hdl s" and d: "distinct (buffers hdl)"
    and dq: "distinct (queue s)" and l: "length (queue s) \<le> NUM_BUFFERS"
    and st: "set (queue s) = set (take (length (queue s)) (buffers hdl))"
    by (simp_all add: pool_inv_def)
  from ok have src: "source hdl \<in> sources s" and cl: "al_errno s = AL_NO_ERROR"
    and len: "length (buffers hdl) = NUM_BUFFERS"
    by (simp_all add: session_ok_def)
  have ret: "returned r \<longrightarrow> pool_inv hdl (result_state r)"
  proof
    assume "returned r"
    then obtain n s' where r: "r = Return n s'" by (cases r) simp_all
    from write_returned[OF hdl ok w[unfolded r]]
    have "session_ok hdl s'" and
      "length (queue s) < NUM_BUFFERS \<and> queue s' = queue s @ [buffers hdl ! length (queue s)] \<or>
       queue s \<noteq> [] \<and> queue s' = tl (queue s) @ [hd (queue s)]"
      by auto
    from pool_inv_step[OF inv this] show "pool_inv hdl (result_state r)" using r by simp
  qed
  from w hdl obtain x where sel: "select_buffer env hdl s = Some x"
    by (auto simp: sa_openal_write_def split: option.splits)
  show ?thesis
  proof (cases "length (queue s) < NUM_BUFFERS \<and> buffers hdl ! length (queue s) \<noteq> - 1")
    case True
    let ?b = "buffers hdl ! length (queue s)"
    let ?s1 = "queried env s"
    from select_fast[OF src cl _ len, of env] True sel
    have x: "x = Return ?b ?s1" by simp
    have r: "r = fill_queue_play env sa hdl buf nframes ?b ?s1"
      using w hdl sel x by (simp add: sa_openal_write_def)
    have n: "length (queue s) < length (buffers hdl)" using True len by simp
    have nb: "?b \<notin> set (queue ?s1)" using nth_notin_take[OF d n] st by simp
    have src1: "source hdl \<in> sources ?s1" and cl1: "al_errno ?s1 = AL_NO_ERROR"
      and l1: "length (queue ?s1) < NUM_BUFFERS"
      using src cl True by simp_all
    from fill_tracked[OF src1 cl1 nb l1, of env sa buf nframes ready] obtain cs where
      f: "calls (result_state r) = calls ?s1 @ cs"
         "track cs (queue ?s1, ready) = Some (queue (result_state r), ready)"
         "fst ` set (uploads cs) \<subseteq> {?b}"
         "length (queue (result_state r)) \<le> NUM_BUFFERS"
      unfolding r by blast
    have u: "fst ` set (uploads cs) \<subseteq> set (buffers hdl)"
      using f(3) n by (meson nth_mem order_trans empty_subsetI insert_subset)
    show ?thesis
      apply (rule exI[of _ "[AlGetSourcei_QUEUED (int (length (queue s)))] @ cs"],
          rule exI[of _ ready])
      using f u ret by simp
  next
    case False
    then have slow: "NUM_BUFFERS \<le> length (queue s) \<or> buffers hdl ! length (queue s) = - 1"
      by auto
    let ?b = "hd (queue s)"
    from select_slow_sound[OF sel src cl len slow] obtain k m s1 where
      x: "x = Return ?b s1" "queue s \<noteq> []" "queue s1 = tl (queue s)" "1 \<le> m"
         "sources s1 = sources s" "al_errno s1 = AL_NO_ERROR"
         "calls s1 = calls s @ [AlGetSourcei_QUEUED (int (length (queue s)))] @
            replicate k (AlGetSourcei_PROCESSED 0) @
            [AlGetSourcei_PROCESSED m, AlSourceUnqueueBuffers ?b]"
      by blast
    have r: "r = fill_queue_play env sa hdl buf nframes ?b s1"
      using w hdl sel x(1) by (simp add: sa_openal_write_def)
    have e: "queue s = ?b # tl (queue s)" using x(2) by simp
    have nb: "?b \<notin> set (queue s1)" using dq e x(3) by (metis distinct.simps(2))
    have src1: "source hdl \<in> sources s1" using src x(5) by simp
    have l1: "length (queue s1) < NUM_BUFFERS" using l x(2,3) by (cases "queue s") simp_all
    from fill_tracked[OF src1 x(6) nb l1, of env sa buf nframes False] obtain cs where
      f: "calls (result_state r) = calls s1 @ cs"
         "track cs (queue s1, False) = Some (queue (result_state r), False)"
         "fst ` set (uploads cs) \<subseteq> {?b}"
         "length (queue (result_state r)) \<le> NUM_BUFFERS"
      unfolding r by blast
    have "?b \<in> set (queue s)" using x(2) by simp
    then have "?b \<in> set (buffers hdl)" using st by (auto dest: in_set_takeD)
    then have u: "fst ` set (uploads cs) \<subseteq> set (buffers hdl)" using f(3) by auto
    let ?sel = "[AlGetSourcei_QUEUED (int (length (queue s)))] @
            replicate k (AlGetSourcei_PROCESSED 0) @
            [AlGetSourcei_PROCESSED m, AlSourceUnqueueBuffers ?b]"
    have t: "track (?sel @ cs) (queue s, ready) = Some (queue (result_state r), False)"
      using track_select_slow[OF x(4,2), of "int (length (queue s))" k ready] f(2) x(3)
      by (simp only: track_append[of ?sel cs] option.case)
    have c: "calls (result_state r) = calls s @ ?sel @ cs" using f(1) x(7) by simp
    have us: "uploads (?sel @ cs) = uploads cs" by simp
    show ?thesis
      apply (rule exI[of _ "?sel @ cs"], rule exI[of _ False])
      using c t u us f(4) ret by (simp only: simp_thms)
  qed
qed


lemma writes_tracked:
  assumes hdl: "backend_handle sa = Some hdl"
  shows "pool_inv hdl s \<Longrightarrow> sa_openal_writes env sa chunks s = Some r \<Longrightarrow>
     \<exists>cs ready'. calls (result_state r) = calls s @ cs \<and>
       track cs (queue s, ready) = Some (queue (result_state r), ready') \<and>
       fst ` set (uploads cs) \<subseteq> set (buffers hdl) \<and>
       length (queue (result_state r)) \<le> NUM_BUFFERS"
proof (induction chunks arbitrary: s r ready)
  case Nil
  then have "r = Return [] s" by simp
  then show ?case using Nil.prems(1) by (simp add: pool_inv_def)
next
  case (Cons c chunks)
  obtain buf nframes where c: "c = (buf, nframes)" by (cases c)
  from Cons.prems(2) c obtain x where w: "sa_openal_write env sa buf nframes s = Some x"
    by (cases "sa_openal_write env sa buf nframes s") simp_all
  from write_tracked[OF hdl Cons.prems(1) w, of ready] obtain cs1 ready1 where
    1: "calls (result_state x) = calls s @ cs1"
       "track cs1 (queue s, ready) = Some (queue (result_state x), ready1)"
       "fst ` set (uploads cs1) \<subseteq> set (buffers hdl)"
       "length (queue (result_state x)) \<le> NUM_BUFFERS"
       "returned x \<longrightarrow> pool_inv hdl (result_state x)"
    by blast
  show ?case
  proof (cases x)
    case (Abort e s1)
    with Cons.prems(2) c w have "r = Abort e s1" by simp
    with 1 Abort show ?thesis by auto
  next
    case (Return n s1)
    with 1(5) have inv1: "pool_inv hdl s1" by simp
    from Cons.prems(2) c w Return obtain y where
      ws: "sa_openal_writes env sa chunks s1 = Some y"
      by (cases "sa_openal_writes env sa chunks s1") simp_all
    have rs: "result_state r = result_state y"
      using Cons.prems(2) c w Return ws by (cases y) auto
    from Cons.IH[OF inv1 ws, of ready1] obtain cs2 ready2 where
      2: "calls (result_state y) = calls s1 @ cs2"
         "track cs2 (queue s1, ready1) = Some (queue (result_state y), ready2)"
         "fst ` set (uploads cs2) \<subseteq> set (buffers hdl)"
         "length (queue (result_state y)) \<le> NUM_BUFFERS"
      by blast
    have t: "track (cs1 @ cs2) (queue s, ready) = Some (queue (result_state r), ready2)"
      using 1(2) 2(2) Return rs by (simp add: track_append)
    have cc: "calls (result_state r) = calls s @ cs1 @ cs2"
      using 1(1) 2(1) Return rs by simp
    have u: "fst ` set (uploads (cs1 @ cs2)) \<subseteq> set (buffers hdl)"
      using 1(3) 2(3) by (simp add: image_Un)
    show ?thesis
      apply (rule exI[of _ "cs1 @ cs2"], rule exI[of _ ready2])
      using t cc u 2(4) rs by simp
  qed
qed

lemma track_step_bound:
  "track_step c (q, ready) = Some (q', ready') \<Longrightarrow> length q \<le> NUM_BUFFERS \<Longrightarrow>
   length q' \<le> NUM_BUFFERS"
  by (cases c) (auto split: if_splits)

lemma track_bound:
  "track cs (q, ready) = Some (q', ready') \<Longrightarrow> length q \<le> NUM_BUFFERS \<Longrightarrow>
   length q' \<le> NUM_BUFFERS"
proof (induction cs arbitrary: q ready)
  case Nil
  then show ?case by simp
next
  case (Cons c cs)
  from Cons.prems(1) obtain q1 r1 where
    1: "track_step c (q, ready) = Some (q1, r1)" "track cs (q1, r1) = Some (q', ready')"
    by (auto split: option.splits)
  from Cons.IH[OF 1(2) track_step_bound[OF 1(1) Cons.prems(2)]] show ?case .
qed

lemma track_prefix:
  assumes "track cs ([], False) = Some st"
  shows "\<exists>q ready. track (take n cs) ([], False) = Some (q, ready) \<and> length q \<le> NUM_BUFFERS"
proof -
  have "track (take n cs @ drop n cs) ([], False) = Some st" using assms by simp
  then obtain q ready where 1: "track (take n cs) ([], False) = Some (q, ready)"
    unfolding track_append by (cases "track (take n cs) ([], False)") auto
  from track_bound[OF 1] have "length q \<le> NUM_BUFFERS" by simp
  with 1 show ?thesis by blast
qed

lemma in_flight_le: "in_flight s \<le> length (queue s)"
  by (simp add: in_flight_def)

text \<open>A sequence of writes that returns leaves the source playing. On the device that
  finishes one buffer between any two calls, 129 writes after \<open>sa_openal_open_stream\<close>
  return, and the last of them has polled for a processed buffer.\<close>

lemma writes_snoc:
  "sa_openal_writes env sa chunks s = Some (Return ns t) \<Longrightarrow>
   sa_openal_write env sa buf nframes t = Some (Return n t') \<Longrightarrow>
   sa_openal_writes env sa (chunks @ [(buf, nframes)]) s = Some (Return (ns @ [n]) t')"
proof (induction chunks arbitrary: s ns)
  case Nil
  then show ?case by simp
next
  case (Cons c chunks)
  obtain b f where c: "c = (b, f)" by (cases c)
  from Cons.prems(1) c obtain m s1 ns' where
    w: "sa_openal_write env sa b f s = Some (Return m s1)"
    and ws: "sa_openal_writes env sa chunks s1 = Some (Return ns' t)"
    and ns: "ns = m # ns'"
    by (auto split: option.splits result.splits)
  from Cons.IH[OF ws Cons.prems(2)] w ns c show ?case by simp
qed

lemma writes_leave_playing:
  assumes hdl: "backend_handle sa = Some hdl"
  shows "session_ok hdl s \<Longrightarrow> src_state s = AL_PLAYING \<or> drained s \<Longrightarrow>
     sa_openal_writes env sa chunks s = Some (Return ns t) \<Longrightarrow>
     session_ok hdl t \<and> (src_state t = AL_PLAYING \<or> drained t) \<and>
     (chunks \<noteq> [] \<longrightarrow> src_state t = AL_PLAYING)"
proof (induction chunks arbitrary: s ns)
  case Nil
  then show ?case by simp
next
  case (Cons c chunks)
  obtain b f where c: "c = (b, f)" by (cases c)
  from Cons.prems(3) c obtain m s1 ns' where
    w: "sa_openal_write env sa b f s = Some (Return m s1)"
    and ws: "sa_openal_writes env sa chunks s1 = Some (Return ns' t)"
    by (auto split: option.splits result.splits)
  from write_returned[OF hdl Cons.prems(1) w] have
    1: "session_ok hdl s1" "src_state s1 = AL_PLAYING" by auto
  from Cons.IH[OF 1(1) _ ws] 1(2) have
    2: "session_ok hdl t" "src_state t = AL_PLAYING \<or> drained t"
       "chunks \<noteq> [] \<longrightarrow> src_state t = AL_PLAYING"
    by auto
  have "src_state t = AL_PLAYING"
  proof (cases chunks)
    case Nil
    with ws 1(2) show ?thesis by simp
  next
    case (Cons a list)
    with 2(3) show ?thesis by simp
  qed
  with 2 show ?case by simp
qed

lemma poll_steady:
  "src_state s = AL_PLAYING \<Longrightarrow> queue s \<noteq> [] \<Longrightarrow> src \<in> sources s \<Longrightarrow>
   1 \<le> fst (poll_nth (env0 steady) src 0 (queried (env0 steady) s))"
  by (cases "queue s")
    (auto simp: alGetSourcei_PROCESSED_def queried_def tick_def device_advance_def
      buffers_processed_def logc_def env0_def steady_def Let_def)


lemma writes_129:
  "\<exists>t cs. sa_openal_writes (env0 steady) sa1 (replicate 129 ([1, 2], 1)) opened =
       Some (Return (replicate 129 1) t) \<and>
     calls t = calls opened @ cs \<and> list_ex is_poll cs \<and> length (queue t) = 128"
proof -
  let ?e = "env0 steady"
  let ?x = "([1, 2] :: byte list, 1 :: 64 word)"
  have sz: "0 \<le> data_size sa1 1" by (simp add: data_size_def sa1_def)
  have "\<exists>t cs. sa_openal_writes ?e sa1 (replicate 128 ?x) opened =
         Some (Return (map (\<lambda>(buf, nframes). sint nframes) (replicate 128 ?x)) t) \<and>
       session_ok hdl0 t \<and> pool_in_order hdl0 t \<and>
       queue t = take (length (queue opened) + length (replicate 128 ?x)) (buffers hdl0) \<and>
       calls t = calls opened @ cs \<and>
       map fst (uploads cs) =
         take (length (replicate 128 ?x)) (drop (length (queue opened)) (buffers hdl0)) \<and>
       \<not> list_ex is_poll cs"
    by (rule writes_in_order[OF hdl_sa1 format_sa1 ok_opened order_opened])
      (simp_all add: queue_opened NUM_BUFFERS_def sz list_all_length)
  then obtain t cs where
    a: "sa_openal_writes ?e sa1 (replicate 128 ?x) opened =
         Some (Return (map (\<lambda>(buf, nframes). sint nframes) (replicate 128 ?x)) t)"
       "session_ok hdl0 t" "pool_in_order hdl0 t"
       "queue t = take (length (queue opened) + length (replicate 128 ?x)) (buffers hdl0)"
       "calls t = calls opened @ cs"
    by blast
  have q: "queue t = pool128" using a(4) by (simp add: queue_opened buffers_hdl0)
  have dr: "src_state opened = AL_PLAYING \<or> drained opened"
    by (simp add: drained_def buffers_processed_def opened_def boot_def)
  from writes_leave_playing[OF hdl_sa1 ok_opened dr a(1)]
  have pl: "src_state t = AL_PLAYING" by simp
  from a(2) have src: "source hdl0 \<in> sources t" by (simp add: session_ok_def)
  have ne: "queue t \<noteq> []" using q pool128_nonempty by simp
  note p = poll_steady[OF pl ne src]
  have slow: "NUM_BUFFERS \<le> length (queue t) \<or> buffers hdl0 ! length (queue t) = - 1"
    using q by (simp add: NUM_BUFFERS_def)
  have g: "hd (queue t) \<in> gen_bufs t"
    using a(3) q pool128_nonempty by (auto simp: pool_in_order_def buffers_hdl0)
  have h: "hd (queue t) \<notin> set (tl (queue t))"
    using q hd_notin_tl[OF distinct_pool128 pool128_nonempty] by simp
  from write_slow_returns[OF hdl_sa1 a(2) slow p g h sz format_sa1, of "[1, 2]"]
  obtain t' where w: "sa_openal_write ?e sa1 [1, 2] 1 t = Some (Return (sint (1 :: 64 word)) t')" ..
  from write_returned[OF hdl_sa1 a(2) w] slow obtain cs2 where
    c2: "calls t' = calls t @ cs2" "list_ex is_poll cs2" "queue t' = tl (queue t) @ [hd (queue t)]"
    by (auto simp: NUM_BUFFERS_def)
  have r: "replicate 129 ?x = replicate 128 ?x @ [?x]"
  proof -
    have "(129 :: nat) = Suc 128" by simp
    then show ?thesis by (simp only: replicate_Suc replicate_append_same)
  qed
  have r1: "replicate 129 (1 :: int) = replicate 128 1 @ [1]"
  proof -
    have "(129 :: nat) = Suc 128" by simp
    then show ?thesis by (simp only: replicate_Suc replicate_append_same)
  qed
  have m: "map (\<lambda>(buf, nframes). sint nframes) (replicate 128 ?x) = replicate 128 (1 :: int)"
    by simp
  have ws: "sa_openal_writes ?e sa1 (replicate 129 ?x) opened = Some (Return (replicate 129 1) t')"
    unfolding r r1 using writes_snoc[OF a(1) w] m by simp
  have l: "length (queue t') = 128" using c2(3) q ne by simp
  have c: "calls t' = calls opened @ (cs @ cs2)" using a(5) c2(1) by simp
  have pc: "list_ex is_poll (cs @ cs2)" using c2(2) by simp
  from ws c pc l show ?thesis by blast
qed

section \<open>The claims\<close>

subsection \<open>The capture direction\<close>

text \<open>
  Claim C9. The capture direction is declared but unavailable, and fails in a determined
  way: \<open>sa_openal_read\<close> stops at its \<open>assert(0)\<close> on every call, in the state it was
  called in (no frame is moved, no device call is made); \<open>sa_openal_open_stream\<close> with
  direction \<open>SA_STREAM_RECORD\<close> stops at the \<open>assert(0)\<close> of its \<open>switch\<close> before it has made
  any device call, so no device, context, source or buffer has been acquired.
\<close>

theorem capture_is_unavailable:
  "sa_openal_read sa buf nframes s = Abort AssertionFailed s \<and>
   (let r = sa_openal_open_stream env sa backend_device SA_STREAM_RECORD sa_format rate'
              channels' app_name stream_name s
    in r = Abort AssertionFailed (result_state r) \<and>
       calls (result_state r) = calls s \<and>
       devices (result_state r) = devices s \<and>
       contexts (result_state r) = contexts s \<and>
       sources (result_state r) = sources s \<and>
       gen_bufs (result_state r) = gen_bufs s)"
  by (simp add: sa_openal_read_def sa_openal_open_stream_def malloc_def)

subsection \<open>The pool-exhausted path\<close>

text \<open>
  Claim C2. A write that finds at least \<open>NUM_BUFFERS\<close> buffers queued polls the processed
  count until it is at least one, with no other way out: the write returns or stops if
  and only if some poll reports a processed buffer (polls counted from the state after
  the query of the queued count), so it terminates when the device eventually reports
  one and spins for ever when it never does. A write that returns has polled \<open>k\<close> times
  in vain and once with a count \<open>m \<ge> 1\<close>, has then unqueued exactly one buffer, the
  oldest of the queue, and has filled and queued that same buffer.
\<close>

theorem pool_exhausted_write_blocks_then_reuses:
  assumes "backend_handle sa = Some hdl" and "session_ok hdl s"
    and "NUM_BUFFERS \<le> length (queue s)"
  shows "((sa_openal_write env sa buf nframes s \<noteq> None) =
          (\<exists>k. 1 \<le> fst (poll_nth env (source hdl) k (queried env s)))) \<and>
    (sa_openal_write env sa buf nframes s = Some (Return n s') \<longrightarrow>
       (\<exists>k m fmt st. 1 \<le> m \<and> m = fst (poll_nth env (source hdl) k (queried env s)) \<and>
          new_calls s s' =
            [AlGetSourcei_QUEUED (int (length (queue s)))] @
            replicate k (AlGetSourcei_PROCESSED 0) @
            [AlGetSourcei_PROCESSED m,
             AlSourceUnqueueBuffers (hd (queue s)),
             AlBufferData (hd (queue s)) fmt (take (nat (data_size sa nframes)) buf)
               (data_size sa nframes) (simpleaudio_get_rate sa),
             AlSourceQueueBuffers (hd (queue s)),
             AlGetSourcei_STATE (Some st)] @
            (if st \<noteq> AL_PLAYING then [AlSourcePlay] else []) \<and>
          queue s' = tl (queue s) @ [hd (queue s)]))"
proof (intro conjI impI)
  show "(sa_openal_write env sa buf nframes s \<noteq> None) =
          (\<exists>k. 1 \<le> fst (poll_nth env (source hdl) k (queried env s)))"
    using write_slow_iff[OF assms(1,2)] assms(3) by blast
next
  assume w: "sa_openal_write env sa buf nframes s = Some (Return n s')"
  from write_returned[OF assms(1,2) w] assms(3)
  obtain b cs fmt st k m where
    c: "calls s' = calls s @ cs @
       [AlBufferData b fmt (take (nat (data_size sa nframes)) buf) (data_size sa nframes)
          (simpleaudio_get_rate sa),
        AlSourceQueueBuffers b, AlGetSourcei_STATE (Some st)] @
       (if st \<noteq> AL_PLAYING then [AlSourcePlay] else [])"
    and b: "b = hd (queue s)" and m: "1 \<le> m" "m = fst (poll_nth env (source hdl) k (queried env s))"
    and cs: "cs = [AlGetSourcei_QUEUED (int (length (queue s)))] @
                replicate k (AlGetSourcei_PROCESSED 0) @
                [AlGetSourcei_PROCESSED m, AlSourceUnqueueBuffers b]"
    and q: "queue s' = tl (queue s) @ [b]"
    by auto
  show "\<exists>k m fmt st. 1 \<le> m \<and> m = fst (poll_nth env (source hdl) k (queried env s)) \<and>
          new_calls s s' =
            [AlGetSourcei_QUEUED (int (length (queue s)))] @
            replicate k (AlGetSourcei_PROCESSED 0) @
            [AlGetSourcei_PROCESSED m,
             AlSourceUnqueueBuffers (hd (queue s)),
             AlBufferData (hd (queue s)) fmt (take (nat (data_size sa nframes)) buf)
               (data_size sa nframes) (simpleaudio_get_rate sa),
             AlSourceQueueBuffers (hd (queue s)),
             AlGetSourcei_STATE (Some st)] @
            (if st \<noteq> AL_PLAYING then [AlSourcePlay] else []) \<and>
          queue s' = tl (queue s) @ [hd (queue s)]"
    apply (rule exI[of _ k], rule exI[of _ m], rule exI[of _ fmt], rule exI[of _ st])
    using c b m cs q by (simp add: new_calls_def)
qed

theorem pool_exhausted_write_witness:
  "\<exists>s'. sa_openal_write (env0 steady) sa1 [1, 2, 3, 4] 2 full = Some (Return 2 s') \<and>
     NUM_BUFFERS \<le> length (queue full) \<and>
     1 \<le> fst (poll_nth (env0 steady) (source hdl0) 0 (queried (env0 steady) full)) \<and>
     queue s' = tl (queue full) @ [hd (queue full)] \<and>
     (\<exists>k m fmt st. 1 \<le> m \<and>
          new_calls full s' =
            [AlGetSourcei_QUEUED 128] @
            replicate k (AlGetSourcei_PROCESSED 0) @
            [AlGetSourcei_PROCESSED m,
             AlSourceUnqueueBuffers 1,
             AlBufferData 1 fmt [1, 2, 3, 4] 4 44100,
             AlSourceQueueBuffers 1,
             AlGetSourcei_STATE (Some st)] @
            (if st \<noteq> AL_PLAYING then [AlSourcePlay] else []))"
proof -
  have sz: "data_size sa1 2 = 4" by (simp add: data_size_def sa1_def)
  have q: "queue full = pool128" by (simp add: full_def opened_def boot_def)
  have len: "NUM_BUFFERS \<le> length (queue full)" by (simp add: q NUM_BUFFERS_def)
  have s: "source hdl0 = 1" by (simp add: hdl0_def)
  have r: "simpleaudio_get_rate sa1 = 44100"
    by (simp add: simpleaudio_get_rate_def sa1_def sa0_def)
  have hq: "hd (queue full) = 1" by (simp only: q hd_pool128)
  have lq: "int (length (queue full)) = 128" by (simp add: q)
  have tk: "take (nat (data_size sa1 2)) [1, 2, 3, 4 :: byte] = [1, 2, 3, 4]" by (simp add: sz)
  have p: "1 \<le> fst (poll_nth (env0 steady) (source hdl0) 0 (queried (env0 steady) full))"
    using poll_full by (simp only: s)
  from write_full_returns[of 2 "[1, 2, 3, 4]"] sz
  obtain s' where w: "sa_openal_write (env0 steady) sa1 [1, 2, 3, 4] 2 full = Some (Return 2 s')"
    by auto
  note th = pool_exhausted_write_blocks_then_reuses[OF hdl_sa1 ok_full len, of "env0 steady"
      "[1, 2, 3, 4]" 2 2 s', THEN conjunct2, rule_format, OF w]
  from th obtain k m fmt st where
    m: "1 \<le> m" and
    c: "new_calls full s' =
            [AlGetSourcei_QUEUED (int (length (queue full)))] @
            replicate k (AlGetSourcei_PROCESSED 0) @
            [AlGetSourcei_PROCESSED m,
             AlSourceUnqueueBuffers (hd (queue full)),
             AlBufferData (hd (queue full)) fmt (take (nat (data_size sa1 2)) [1, 2, 3, 4])
               (data_size sa1 2) (simpleaudio_get_rate sa1),
             AlSourceQueueBuffers (hd (queue full)),
             AlGetSourcei_STATE (Some st)] @
            (if st \<noteq> AL_PLAYING then [AlSourcePlay] else [])" and
    qq: "queue s' = tl (queue full) @ [hd (queue full)]"
    by blast
  have c': "new_calls full s' =
            [AlGetSourcei_QUEUED 128] @
            replicate k (AlGetSourcei_PROCESSED 0) @
            [AlGetSourcei_PROCESSED m,
             AlSourceUnqueueBuffers 1,
             AlBufferData 1 fmt [1, 2, 3, 4] 4 44100,
             AlSourceQueueBuffers 1,
             AlGetSourcei_STATE (Some st)] @
            (if st \<noteq> AL_PLAYING then [AlSourcePlay] else [])"
    using c unfolding hq lq sz r by simp
  show ?thesis
    apply (rule exI[of _ s'])
    apply (intro conjI w len p qq)
    apply (rule exI[of _ k], rule exI[of _ m], rule exI[of _ fmt], rule exI[of _ st])
    apply (rule conjI[OF m c'])
    done
qed

subsection \<open>Playback is started by every write\<close>

text \<open>
  Claim C5. When a write returns, the source is playing. The write has queued the buffer,
  then asked for the playback state \<open>st\<close>, and has called \<open>alSourcePlay\<close> exactly when
  \<open>st\<close> was not \<open>AL_PLAYING\<close>, whatever the number of queued buffers, and nowhere else. When
  the write is the first one after \<open>sa_openal_open_stream\<close> returned 1, the source was in
  its initial state (not playing) and the write has started it.
\<close>

theorem write_leaves_source_playing:
  assumes hdl: "backend_handle sa = Some hdl" and ok: "session_ok hdl s"
    and w: "sa_openal_write env sa buf nframes s = Some (Return n s')"
  shows "src_state s' = AL_PLAYING \<and>
    (\<exists>cs b st. new_calls s s' =
        cs @ [AlSourceQueueBuffers b, AlGetSourcei_STATE (Some st)] @
        (if st \<noteq> AL_PLAYING then [AlSourcePlay] else []) \<and>
        AlSourcePlay \<notin> set cs) \<and>
    (sa_openal_open_stream env sa_before backend_device sa_stream_direction sa_format rate'
        channels' app_name stream_name s_before = Return (1, sa) s
       \<longrightarrow> src_state s = AL_INITIAL \<and> AlSourcePlay \<in> set (new_calls s s'))"
proof -
  from ok have src: "source hdl \<in> sources s" and cl: "al_errno s = AL_NO_ERROR"
    and len: "length (buffers hdl) = NUM_BUFFERS"
    by (simp_all add: session_ok_def)
  from write_returned[OF hdl ok w] obtain b cs fmt st where
    c: "calls s' = calls s @ cs @
       [AlBufferData b fmt (take (nat (data_size sa nframes)) buf) (data_size sa nframes)
          (simpleaudio_get_rate sa),
        AlSourceQueueBuffers b, AlGetSourcei_STATE (Some st)] @
       (if st \<noteq> AL_PLAYING then [AlSourcePlay] else [])"
    and path: "length (queue s) < NUM_BUFFERS \<and> buffers hdl ! length (queue s) \<noteq> - 1 \<and>
        b = buffers hdl ! length (queue s) \<and>
        cs = [AlGetSourcei_QUEUED (int (length (queue s)))]
      \<or>
      (NUM_BUFFERS \<le> length (queue s) \<or> buffers hdl ! length (queue s) = - 1) \<and>
        queue s \<noteq> [] \<and>
        (\<exists>k m. cs = [AlGetSourcei_QUEUED (int (length (queue s)))] @
                replicate k (AlGetSourcei_PROCESSED 0) @
                [AlGetSourcei_PROCESSED m, AlSourceUnqueueBuffers b])"
    and pl: "src_state s' = AL_PLAYING"
    by blast
  have nocs: "AlSourcePlay \<notin> set cs" using path by auto
  let ?pre = "cs @ [AlBufferData b fmt (take (nat (data_size sa nframes)) buf)
      (data_size sa nframes) (simpleaudio_get_rate sa)]"
  have tr: "new_calls s s' = ?pre @ [AlSourceQueueBuffers b, AlGetSourcei_STATE (Some st)] @
        (if st \<noteq> AL_PLAYING then [AlSourcePlay] else [])"
    using c by (simp add: new_calls_def)
  have part2: "\<exists>cs b st. new_calls s s' =
        cs @ [AlSourceQueueBuffers b, AlGetSourcei_STATE (Some st)] @
        (if st \<noteq> AL_PLAYING then [AlSourcePlay] else []) \<and>
        AlSourcePlay \<notin> set cs"
    apply (rule exI[of _ ?pre], rule exI[of _ b], rule exI[of _ st])
    using tr nocs by simp
  have part3: "src_state s = AL_INITIAL \<and> AlSourcePlay \<in> set (new_calls s s')"
    if op: "sa_openal_open_stream env sa_before backend_device sa_stream_direction sa_format rate'
        channels' app_name stream_name s_before = Return (1, sa) s"
  proof -
    from open_success[OF op] have ini: "src_state s = AL_INITIAL" and q: "queue s = []"
      by simp_all
    from path q have fast: "length (queue s) < NUM_BUFFERS"
        "buffers hdl ! length (queue s) \<noteq> - 1"
      by auto
    from w hdl select_fast[OF src cl fast(1) len fast(2), of env]
    have fill: "fill_queue_play env sa hdl buf nframes (buffers hdl ! length (queue s))
        (queried env s) = Return n s'"
      by (simp add: sa_openal_write_def)
    have "src_state (queried env s) \<noteq> AL_PLAYING"
      using ini by (simp add: queried_def tick_not_playing)
    from fill_starts_playback[OF fill _ _ this] src cl
    have "AlSourcePlay \<in> set (new_calls (queried env s) s')" by simp
    then have "AlSourcePlay \<in> set (new_calls s s')"
      using set_drop_subset_set_drop[of "length (calls s)" "Suc (length (calls s))" "calls s'"]
      by (auto simp: new_calls_def)
    with ini show ?thesis by simp
  qed
  from pl part2 part3 show ?thesis by blast
qed

theorem write_leaves_source_playing_witness:
  "\<exists>s'. sa_openal_write (env0 still) sa1 [1, 2, 3, 4] 2 opened = Some (Return 2 s') \<and>
     src_state opened = AL_INITIAL \<and> src_state s' = AL_PLAYING \<and>
     AlSourcePlay \<in> set (new_calls opened s') \<and>
     (\<exists>cs b st. new_calls opened s' =
        cs @ [AlSourceQueueBuffers b, AlGetSourcei_STATE (Some st)] @
        (if st \<noteq> AL_PLAYING then [AlSourcePlay] else []) \<and>
        AlSourcePlay \<notin> set cs)"
proof -
  have "0 \<le> data_size sa1 2" by (simp add: data_size_def sa1_def)
  from write_first_returns[OF this, of still "[1, 2, 3, 4]"]
  obtain s' where w: "sa_openal_write (env0 still) sa1 [1, 2, 3, 4] 2 opened = Some (Return 2 s')"
    by auto
  from write_leaves_source_playing[OF hdl_sa1 ok_opened w, of sa0 None SA_STREAM_PLAYBACK
      SA_SAMPLE_FORMAT_S16 44100 1 "[]" "[]" boot] open_boot[of still] w
  show ?thesis by blast
qed

subsection \<open>No partial write\<close>




subsection \<open>The never-used path\<close>

text \<open>
  Claim C1 at a failing input. The device hands out \<open>2^32 - 1\<close> as the name of the first
  buffer. \<open>sa_openal_open_stream\<close> succeeds; in the first write no buffer is queued, so the
  write ought to take the pool buffer at index 0. Its name equals the sentinel
  \<open>(ALuint)-1\<close>, the test of line 136 succeeds, and the write polls for a processed buffer
  of an empty queue: it never returns, whatever the device's schedule, the data and the
  frame count.
\<close>

theorem sentinel_handle_first_write_never_returns:
  "sa_openal_open_stream (env_s f) sa0 None SA_STREAM_PLAYBACK SA_SAMPLE_FORMAT_S16 44100 1 [] [] boot
     = Return (1, sa_s) opened_s \<and>
   length (queue opened_s) < NUM_BUFFERS \<and>
   buffers hdl_s ! length (queue opened_s) = - 1 \<and>
   sa_openal_write (env_s f) sa_s buf nframes opened_s = None"
proof -
  have q: "queue opened_s = []" by (simp add: opened_s_def opened_def boot_def)
  have b: "buffers hdl_s ! 0 = - 1" by (simp add: hdl_s_def pool_s_0)
  show ?thesis
    using open_boot_s[of f] write_empty_queue_sentinel[OF hdl_sa_s ok_opened_s q b] q b
    by (simp add: NUM_BUFFERS_def)
qed

subsection \<open>The sentinel decides the path\<close>

text \<open>
  Claim C10. \<open>sa_openal_write\<close> enters the pool-exhausted path exactly when the selected
  buffer equals \<open>(ALuint)-1\<close>. For a pool without a handle \<open>2^32 - 1\<close> that is exactly when
  \<open>NUM_BUFFERS\<close> or more buffers are queued. For a pool whose buffer at the index of the
  queued count is \<open>2^32 - 1\<close>, a write with fewer than \<open>NUM_BUFFERS\<close> buffers queued enters
  the pool-exhausted path all the same, and when it returns it has not used that buffer:
  the queue was not empty and the data went to the queue's oldest buffer.
\<close>

theorem sentinel_decides_the_path:
  assumes hdl: "backend_handle sa = Some hdl" and ok: "session_ok hdl s"
  shows "(- 1 \<notin> set (buffers hdl) \<longrightarrow>
           entered_wait s (sa_openal_write env sa buf nframes s) = (NUM_BUFFERS \<le> length (queue s))) \<and>
    (length (queue s) < NUM_BUFFERS \<and> buffers hdl ! length (queue s) = - 1 \<longrightarrow>
       entered_wait s (sa_openal_write env sa buf nframes s) \<and>
       (sa_openal_write env sa buf nframes s = Some (Return n s') \<longrightarrow>
          queue s \<noteq> [] \<and>
          (\<exists>d. uploads (new_calls s s') = [(hd (queue s), d)])))"
proof -
  from ok have src: "source hdl \<in> sources s" and cl: "al_errno s = AL_NO_ERROR"
    and len: "length (buffers hdl) = NUM_BUFFERS"
    by (simp_all add: session_ok_def)
  have slow_enters: "entered_wait s (sa_openal_write env sa buf nframes s)"
    if slow: "NUM_BUFFERS \<le> length (queue s) \<or> buffers hdl ! length (queue s) = - 1"
  proof (cases "sa_openal_write env sa buf nframes s")
    case None
    then show ?thesis by (simp add: entered_wait_def)
  next
    case (Some x)
    then obtain r where sel: "select_buffer env hdl s = Some r"
      using hdl by (auto simp: sa_openal_write_def split: option.splits)
    from select_slow_sound[OF sel src cl len slow] obtain k m s1 where
      r: "r = Return (hd (queue s)) s1"
      and c1: "calls s1 = calls s @ [AlGetSourcei_QUEUED (int (length (queue s)))] @
        replicate k (AlGetSourcei_PROCESSED 0) @
        [AlGetSourcei_PROCESSED m, AlSourceUnqueueBuffers (hd (queue s))]"
      by blast
    have x: "x = fill_queue_play env sa hdl buf nframes (hd (queue s)) s1"
      using Some hdl sel r by (simp add: sa_openal_write_def)
    from fill_calls[of env sa hdl buf nframes "hd (queue s)" s1] x
    obtain cs where "calls (result_state x) = calls s1 @ cs" by auto
    then have "new_calls s (result_state x) =
        [AlGetSourcei_QUEUED (int (length (queue s)))] @
        replicate k (AlGetSourcei_PROCESSED 0) @
        [AlGetSourcei_PROCESSED m, AlSourceUnqueueBuffers (hd (queue s))] @ cs"
      using c1 by (simp add: new_calls_def)
    then show ?thesis using Some by (simp add: entered_wait_def)
  qed
  have fast_skips: "\<not> entered_wait s (sa_openal_write env sa buf nframes s)"
    if fast: "length (queue s) < NUM_BUFFERS" "buffers hdl ! length (queue s) \<noteq> - 1"
  proof -
    have w: "sa_openal_write env sa buf nframes s =
        Some (fill_queue_play env sa hdl buf nframes (buffers hdl ! length (queue s)) (queried env s))"
      using hdl select_fast[OF src cl fast(1) len fast(2), of env]
      by (simp add: sa_openal_write_def)
    from fill_calls[of env sa hdl buf nframes "buffers hdl ! length (queue s)" "queried env s"]
    obtain cs where "calls (result_state (fill_queue_play env sa hdl buf nframes
          (buffers hdl ! length (queue s)) (queried env s))) = calls (queried env s) @ cs"
      and "\<not> list_ex is_poll cs" by blast
    then have "new_calls s (result_state (fill_queue_play env sa hdl buf nframes
          (buffers hdl ! length (queue s)) (queried env s))) =
          AlGetSourcei_QUEUED (int (length (queue s))) # cs \<and> \<not> list_ex is_poll cs"
      by (simp add: new_calls_def)
    then show ?thesis using w by (simp add: entered_wait_def)
  qed
  show ?thesis
  proof (intro conjI impI)
    assume ns: "- 1 \<notin> set (buffers hdl)"
    show "entered_wait s (sa_openal_write env sa buf nframes s) = (NUM_BUFFERS \<le> length (queue s))"
    proof (cases "NUM_BUFFERS \<le> length (queue s)")
      case True
      then show ?thesis using slow_enters by simp
    next
      case False
      then have n: "length (queue s) < length (buffers hdl)" using len by simp
      have "buffers hdl ! length (queue s) \<noteq> - 1" using ns nth_mem[OF n] by metis
      with False fast_skips show ?thesis by simp
    qed
  next
    assume a: "length (queue s) < NUM_BUFFERS \<and> buffers hdl ! length (queue s) = - 1"
    then show "entered_wait s (sa_openal_write env sa buf nframes s)"
      using slow_enters by simp
  next
    assume a: "length (queue s) < NUM_BUFFERS \<and> buffers hdl ! length (queue s) = - 1"
      and w: "sa_openal_write env sa buf nframes s = Some (Return n s')"
    from write_returned[OF hdl ok w] a obtain cs fmt st k m where
      ne: "queue s \<noteq> []" and
      c: "calls s' = calls s @ cs @
       [AlBufferData (hd (queue s)) fmt (take (nat (data_size sa nframes)) buf)
          (data_size sa nframes) (simpleaudio_get_rate sa),
        AlSourceQueueBuffers (hd (queue s)), AlGetSourcei_STATE (Some st)] @
       (if st \<noteq> AL_PLAYING then [AlSourcePlay] else [])"
      and cs: "cs = [AlGetSourcei_QUEUED (int (length (queue s)))] @
                replicate k (AlGetSourcei_PROCESSED 0) @
                [AlGetSourcei_PROCESSED m, AlSourceUnqueueBuffers (hd (queue s))]"
      by auto
    have "uploads (new_calls s s') =
        [(hd (queue s), take (nat (data_size sa nframes)) buf)]"
      using c cs by (simp add: new_calls_def)
    then show "\<exists>d. uploads (new_calls s s') = [(hd (queue s), d)]" ..
    show "queue s \<noteq> []" by (rule ne)
  qed
qed

theorem sentinel_decides_the_path_witness:
  "- 1 \<notin> set (buffers hdl0) \<and> \<not> NUM_BUFFERS \<le> length (queue opened) \<and>
   \<not> entered_wait opened (sa_openal_write (env0 still) sa1 [1, 2, 3, 4] 2 opened) \<and>
   length (queue one_played) < NUM_BUFFERS \<and>
   buffers hdl_t ! length (queue one_played) = - 1 \<and>
   entered_wait one_played (sa_openal_write (env0 still) sa_t [1, 2, 3, 4] 2 one_played) \<and>
   (\<exists>s'. sa_openal_write (env0 still) sa_t [1, 2, 3, 4] 2 one_played = Some (Return 2 s') \<and>
      (\<exists>d. uploads (new_calls one_played s') = [(hd (queue one_played), d)])) \<and>
   hd (queue one_played) = 1"
proof -
  have ns: "- 1 \<notin> set (buffers hdl0)"
    by (simp add: buffers_hdl0 sentinel_notin_pool128)
  have nq: "\<not> NUM_BUFFERS \<le> length (queue opened)"
    by (simp add: queue_opened NUM_BUFFERS_def)
  have a: "\<not> entered_wait opened (sa_openal_write (env0 still) sa1 [1, 2, 3, 4] 2 opened)"
    using sentinel_decides_the_path[OF hdl_sa1 ok_opened, of "env0 still" "[1, 2, 3, 4]" 2,
        THEN conjunct1, rule_format, OF ns] nq
    by simp
  have lt: "length (queue one_played) < NUM_BUFFERS"
    by (simp add: one_played_def NUM_BUFFERS_def)
  have sz: "0 \<le> data_size sa_t 2" by (simp add: data_size_def sa_t_def sa1_def)
  have slow: "NUM_BUFFERS \<le> length (queue one_played) \<or>
      buffers hdl_t ! length (queue one_played) = - 1"
    using sentinel_at_1 by simp
  have hq: "hd (queue one_played) = 1" by (simp add: one_played_def)
  have g: "hd (queue one_played) \<in> gen_bufs one_played"
    by (simp add: one_played_def opened_def boot_def one_in_pool128)
  have t: "hd (queue one_played) \<notin> set (tl (queue one_played))"
    by (simp add: one_played_def)
  from write_slow_returns[OF hdl_sa_t ok_one_played slow poll_one_played g t sz format_sa_t,
      of "[1, 2, 3, 4]"]
  obtain s' where
    w: "sa_openal_write (env0 still) sa_t [1, 2, 3, 4] 2 one_played = Some (Return 2 s')"
    by auto
  note th = sentinel_decides_the_path[OF hdl_sa_t ok_one_played, of "env0 still" "[1, 2, 3, 4]" 2
      2 s', THEN conjunct2, rule_format, OF conjI[OF lt sentinel_at_1]]
  have b: "entered_wait one_played (sa_openal_write (env0 still) sa_t [1, 2, 3, 4] 2 one_played)"
    by (rule th[THEN conjunct1])
  have c: "\<exists>d. uploads (new_calls one_played s') = [(hd (queue one_played), d)]"
    using th[THEN conjunct2, rule_format, OF w] by (rule conjunct2)
  have "\<exists>s'. sa_openal_write (env0 still) sa_t [1, 2, 3, 4] 2 one_played = Some (Return 2 s') \<and>
      (\<exists>d. uploads (new_calls one_played s') = [(hd (queue one_played), d)])"
    using w c by (intro exI[of _ s'] conjI)
  with ns nq a lt sentinel_at_1 b hq show ?thesis by (intro conjI)
qed

subsection \<open>Failure of the context creation during open\<close>

text \<open>
  Claim C6 at a failing input. Every failure during \<open>sa_openal_open_stream\<close> is to release
  what was acquired before. When \<open>alcOpenDevice\<close> has opened a device \<open>d\<close> and
  \<open>alcCreateContext\<close> returns \<open>NULL\<close>, the call prints the diagnostic with the translated error
  code, frees the handle and returns 0 with the session untouched; but the three device
  calls it has made are \<open>alcOpenDevice\<close>, \<open>alcCreateContext\<close> and \<open>alcMakeContextCurrent(NULL)\<close>,
  and the device \<open>d\<close> is still open when it returns.
\<close>

theorem context_failure_leaks_the_device:
  "(let r = sa_openal_open_stream (env\<lparr>device_ptr := Some d, context_ptr := Inl ALC_OUT_OF_MEMORY\<rparr>)
              sa backend_device SA_STREAM_PLAYBACK sa_format rate' channels' app_name stream_name s
    in r = Return (0, sa) (result_state r) \<and>
       d \<in> devices (result_state r) \<and>
       heap (result_state r) = heap s \<and>
       new_calls s (result_state r) =
         [AlcOpenDevice (Some d), AlcCreateContext None, AlcMakeContextCurrent None] \<and>
       err_out (result_state r) =
         err_out s @ [''E: Cannot create OpenAL context: ALC_OUT_OF_MEMORY'' @ [CHR 0x0A, CHR '' '']])"
  by (simp add: sa_openal_open_stream_def malloc_def alcOpenDevice_def alcCreateContext_def
      alcMakeContextCurrent_def alcGetError_def open_fail_def free_def fprintf_stderr_def
      logc_def new_calls_def Let_def)

subsection \<open>Unsupported formats\<close>




subsection \<open>Closing a session\<close>




subsection \<open>The pool is bounded, and a buffer is reused only after it was unqueued\<close>

text \<open>
  Claim C3. Take a session as \<open>sa_openal_open_stream\<close> has just opened it, on a device
  whose \<open>alGenBuffers\<close> hands out 128 pairwise different names, and any sequence of writes
  on it that comes back (it returns, or it stops at a failed assertion). Then:
  \<^item> the device calls of the sequence are accepted by the monitor \<open>track\<close>, started with the
    empty queue, and the monitor ends with the queue of the source. So a buffer was
    filled only while it was not on the queue: a buffer that is used again had been
    unqueued before, and a buffer was unqueued only as the oldest of the queue, right
    after a poll in which the device reported a processed buffer;
  \<^item> at every moment of the sequence the queue holds at most 128 buffers, so that no more
    than 128 buffers are in flight;
  \<^item> every buffer that was filled is one of the pool.
\<close>

theorem pool_is_bounded_and_reused_only_after_unqueue:
  assumes "sa_openal_open_stream env sa_in backend_device dir fmt rt ch app nm s0 = Return (1, sa) s"
    and "buffers_gen env = Some names" and "NUM_BUFFERS \<le> length names"
    and "distinct (take NUM_BUFFERS names)"
    and "sa_openal_writes env sa chunks s = Some r"
  shows "(\<exists>ready. track (new_calls s (result_state r)) ([], False) =
                    Some (queue (result_state r), ready)) \<and>
    (\<forall>n. \<exists>q ready. track (take n (new_calls s (result_state r))) ([], False) = Some (q, ready) \<and>
                   length q \<le> NUM_BUFFERS) \<and>
    in_flight (result_state r) \<le> NUM_BUFFERS \<and>
    fst ` set (uploads (new_calls s (result_state r))) \<subseteq> set (take NUM_BUFFERS names)"
proof -
  let ?hdl = "the (backend_handle sa)"
  from open_success[OF assms(1)] assms(2) have
    o: "queue s = []" "al_errno s = AL_NO_ERROR" "source ?hdl \<in> sources s"
       "buffers ?hdl = take NUM_BUFFERS names" "backend_handle sa = Some ?hdl"
    by auto
  have inv: "pool_inv ?hdl s"
    using o assms(3,4) by (simp add: pool_inv_def session_ok_def)
  from writes_tracked[OF o(5) inv assms(5), of False] o(1,4) obtain cs ready where
    1: "calls (result_state r) = calls s @ cs"
       "track cs ([], False) = Some (queue (result_state r), ready)"
       "fst ` set (uploads cs) \<subseteq> set (take NUM_BUFFERS names)"
       "length (queue (result_state r)) \<le> NUM_BUFFERS"
    by auto
  have n: "new_calls s (result_state r) = cs" using 1(1) by simp
  have f: "in_flight (result_state r) \<le> NUM_BUFFERS"
    using in_flight_le[of "result_state r"] 1(4) by linarith
  show ?thesis
    unfolding n using 1(2,3) f track_prefix[OF 1(2)] by blast
qed

theorem pool_is_bounded_witness:
  "\<exists>t ready.
     sa_openal_open_stream (env0 steady) sa0 None SA_STREAM_PLAYBACK SA_SAMPLE_FORMAT_S16 44100 1
       [] [] boot = Return (1, sa1) opened \<and>
     buffers_gen (env0 steady) = Some pool128 \<and> NUM_BUFFERS \<le> length pool128 \<and>
     distinct (take NUM_BUFFERS pool128) \<and>
     sa_openal_writes (env0 steady) sa1 (replicate 129 ([1, 2], 1)) opened =
       Some (Return (replicate 129 1) t) \<and>
     list_ex is_poll (new_calls opened t) \<and>
     track (new_calls opened t) ([], False) = Some (queue t, ready) \<and>
     length (queue t) = 128 \<and> in_flight t \<le> NUM_BUFFERS \<and>
     fst ` set (uploads (new_calls opened t)) \<subseteq> set (take NUM_BUFFERS pool128)"
proof -
  from writes_129 obtain t cs where
    ws: "sa_openal_writes (env0 steady) sa1 (replicate 129 ([1, 2], 1)) opened =
       Some (Return (replicate 129 1) t)"
    and c: "calls t = calls opened @ cs" and pc: "list_ex is_poll cs"
    and lq: "length (queue t) = 128"
    by blast
  have n: "list_ex is_poll (new_calls opened t)" using c pc by simp
  have g: "buffers_gen (env0 steady) = Some pool128" by (simp add: env0_def)
  have l: "NUM_BUFFERS \<le> length pool128" by (simp add: NUM_BUFFERS_def)
  have d: "distinct (take NUM_BUFFERS pool128)" using distinct_pool128 by simp
  note th = pool_is_bounded_and_reused_only_after_unqueue[OF open_boot g l d ws]
  from th obtain ready where
    1: "track (new_calls opened t) ([], False) = Some (queue t, ready)"
    by auto
  from th have 2: "in_flight t \<le> NUM_BUFFERS"
    "fst ` set (uploads (new_calls opened t)) \<subseteq> set (take NUM_BUFFERS pool128)"
    by simp_all
  show ?thesis
    apply (rule exI[of _ t], rule exI[of _ ready])
    using open_boot[of steady] g l d ws n 1 lq 2 by (intro conjI)
qed

end
